theory Spec2Isabelle
  imports Main "HOL-Library.Sublist"
begin

section \<open>Strings\<close>

text \<open>
  A JavaScript string is a sequence of UTF-16 code units. Here a \<^typ>\<open>char\<close> stands for
  one code unit below 256, so \<^term>\<open>length s\<close> is the \<^verbatim>\<open>s.length\<close> of the source and
  the separator \<^verbatim>\<open>U+00B7\<close> and the no-break space \<^verbatim>\<open>U+00A0\<close> are single characters.
\<close>

definition isSpace :: "char \<Rightarrow> bool" where
  \<comment> \<open>the class \<^verbatim>\<open>\s\<close>, which is also what \<^verbatim>\<open>trim\<close> strips: TAB, LF, VT, FF, CR, SP, NBSP\<close>
  "isSpace c = (of_char c \<in> {9, 10, 11, 12, 13, 32, 160 :: nat})"

definition trim :: "string \<Rightarrow> string" where
  "trim s = rev (dropWhile isSpace (rev (dropWhile isSpace s)))"

function collapse :: "string \<Rightarrow> string" where
  \<comment> \<open>\<^verbatim>\<open>text.replace(/\s+/g, ' ')\<close>\<close>
  "collapse [] = []"
| "collapse (c # cs) =
     (if isSpace c then CHR '' '' # collapse (dropWhile isSpace cs) else c # collapse cs)"
  by pat_completeness auto
termination
  by (relation "measure length") (auto simp: length_dropWhile_le less_Suc_eq_le)

definition normalizeText :: "string \<Rightarrow> string" where
  "normalizeText text = trim (collapse text)"

definition startsWith :: "string \<Rightarrow> string \<Rightarrow> bool" where
  "startsWith s p = prefix p s"

definition str_includes :: "string \<Rightarrow> string \<Rightarrow> bool" where
  \<comment> \<open>\<^verbatim>\<open>s.includes(sub)\<close>\<close>
  "str_includes s sub = sublist sub s"

definition digitChar :: "nat \<Rightarrow> char" where
  "digitChar d = char_of (48 + d)"

function showNat :: "nat \<Rightarrow> string" where
  \<comment> \<open>the decimal rendering of a page number inside a template literal\<close>
  "showNat n = (if n < 10 then [digitChar n] else showNat (n div 10) @ [digitChar (n mod 10)])"
  by pat_completeness auto
termination
  by (relation "measure id") auto

declare showNat.simps [simp del]

section \<open>Posts\<close>

text \<open>
  The single-source script declares \<^verbatim>\<open>BlogPost\<close> with five fields; the multi-source
  script adds \<^verbatim>\<open>source\<close>. The second is an extension of the first, so that what only
  reads \<^verbatim>\<open>link\<close> or \<^verbatim>\<open>date\<close> serves both.
\<close>

record BlogPost =
  title :: string
  link :: string
  description :: string
  category :: string
  date :: string

record SourcedBlogPost = BlogPost +
  source :: string

section \<open>Date Resolver\<close>

text \<open>
  \<^verbatim>\<open>new Date(dateStr)\<close> is the engine's parser: it is the parameter \<open>dateParse\<close>, which gives
  the time value in milliseconds, or \<open>None\<close> for an Invalid Date (\<^verbatim>\<open>getTime()\<close> is NaN).
  \<^verbatim>\<open>new Date()\<close> reads the clock: the reading is the parameter \<open>now\<close>.
\<close>

definition parseDate :: "(string \<Rightarrow> int option) \<Rightarrow> int \<Rightarrow> string \<Rightarrow> int" where
  "parseDate dateParse now dateStr =
     (case dateParse dateStr of None \<Rightarrow> now | Some parsed \<Rightarrow> parsed)"

section \<open>Deduplicator\<close>

fun dedupeFilter :: "string set \<Rightarrow> ('a BlogPost_scheme) list \<Rightarrow> ('a BlogPost_scheme) list" where
  \<comment> \<open>the \<^verbatim>\<open>filter\<close> callback with its \<^verbatim>\<open>seen\<close> set, run over the posts from left to right\<close>
  "dedupeFilter seen [] = []"
| "dedupeFilter seen (post # posts) =
     (if link post \<in> seen then dedupeFilter seen posts
      else post # dedupeFilter (insert (link post) seen) posts)"

definition dedupeByLink :: "('a BlogPost_scheme) list \<Rightarrow> ('a BlogPost_scheme) list" where
  "dedupeByLink posts = dedupeFilter {} posts"

section \<open>Aggregator\<close>

text \<open>
  The aggregate is \<^verbatim>\<open>dedupeByLink(allPosts).sort(compare)\<close>. The comparator calls
  \<^verbatim>\<open>parseDate\<close> on \<open>b\<close> first and on \<open>a\<close> second, and each call reads the clock anew when
  its date does not parse: \<open>t1\<close> and \<open>t2\<close> are the clock readings of the two calls, in that
  order, so \<open>t1 \<le> t2\<close> in every run. The sort itself is the engine's
  \<^verbatim>\<open>Array.prototype.sort\<close>, which promises a sorted, stable result only for a consistent
  comparator.
\<close>

definition compareFn ::
  "(string \<Rightarrow> int option) \<Rightarrow> int \<Rightarrow> int \<Rightarrow> 'a BlogPost_scheme \<Rightarrow> 'a BlogPost_scheme \<Rightarrow> int" where
  "compareFn dateParse t1 t2 a b = parseDate dateParse t1 (date b) - parseDate dateParse t2 (date a)"

section \<open>Crawlers\<close>

text \<open>
  The injected fetch function and the injected parser may throw; \<open>None\<close> is the throw, which
  the \<^verbatim>\<open>try\<close> block of each crawler catches. Each crawler also returns what it did besides:
  the pagination crawler the URLs it requested, in order, and a single-page crawler the
  lines it wrote with \<^verbatim>\<open>console.error\<close>.
\<close>

definition maxPages :: nat where
  "maxPages = 100"

definition pageUrl :: "string \<Rightarrow> nat \<Rightarrow> string" where
  "pageUrl baseUrl page = (if page = 1 then baseUrl else baseUrl @ ''/page/'' @ showNat page)"

function crawlLoop ::
  "(string \<Rightarrow> string option) \<Rightarrow> (string \<Rightarrow> string \<Rightarrow> 'p list option) \<Rightarrow> string \<Rightarrow> string \<Rightarrow>
     nat \<Rightarrow> 'p list \<Rightarrow> string list \<Rightarrow> 'p list \<times> string list" where
  "crawlLoop fetchFn parse baseUrl siteUrl page allPosts requested =
     (if page \<le> maxPages then
        (let url = pageUrl baseUrl page in
         case fetchFn url of
           None \<Rightarrow> (allPosts, requested @ [url])
         | Some html \<Rightarrow>
             (case parse html siteUrl of
                None \<Rightarrow> (allPosts, requested @ [url])
              | Some posts \<Rightarrow>
                  if posts = [] then (allPosts, requested @ [url])
                  else if \<not> str_includes html (''/blog/page/'' @ showNat (page + 1))
                    then (allPosts @ posts, requested @ [url])
                  else crawlLoop fetchFn parse baseUrl siteUrl (page + 1) (allPosts @ posts)
                         (requested @ [url])))
      else (allPosts, requested))"
  by pat_completeness auto
termination
  by (relation "measure (\<lambda>(fetchFn, parse, baseUrl, siteUrl, page, allPosts, requested). Suc maxPages - page)")
    auto

declare crawlLoop.simps [simp del]

definition fetchCursorPosts ::
  "(string \<Rightarrow> string option) \<Rightarrow> string \<Rightarrow> string \<Rightarrow> (string \<Rightarrow> string \<Rightarrow> 'p list option) \<Rightarrow>
     'p list \<times> string list" where
  "fetchCursorPosts fetchFn baseUrl siteUrl parse = crawlLoop fetchFn parse baseUrl siteUrl 1 [] []"

definition singlePage ::
  "string \<Rightarrow> (string \<Rightarrow> string option) \<Rightarrow> string \<Rightarrow> string \<Rightarrow> (string \<Rightarrow> string \<Rightarrow> 'p list option) \<Rightarrow>
     'p list \<times> string list" where
  \<comment> \<open>the body the three single-page crawlers share; \<open>msg\<close> is what the \<^verbatim>\<open>catch\<close> logs\<close>
  "singlePage msg fetchFn baseUrl siteUrl parse =
     (case fetchFn baseUrl of
        None \<Rightarrow> ([], [msg])
      | Some html \<Rightarrow> (case parse html siteUrl of None \<Rightarrow> ([], [msg]) | Some posts \<Rightarrow> (posts, [])))"

definition fetchClaudePosts ::
  "(string \<Rightarrow> string option) \<Rightarrow> string \<Rightarrow> string \<Rightarrow> (string \<Rightarrow> string \<Rightarrow> 'p list option) \<Rightarrow>
     'p list \<times> string list" where
  "fetchClaudePosts = singlePage ''Error fetching Claude blog:''"

definition fetchAnthropicEngineeringPosts ::
  "(string \<Rightarrow> string option) \<Rightarrow> string \<Rightarrow> string \<Rightarrow> (string \<Rightarrow> string \<Rightarrow> 'p list option) \<Rightarrow>
     'p list \<times> string list" where
  "fetchAnthropicEngineeringPosts = singlePage ''Error fetching Anthropic Engineering blog:''"

definition fetchAnthropicResearchPosts ::
  "(string \<Rightarrow> string option) \<Rightarrow> string \<Rightarrow> string \<Rightarrow> (string \<Rightarrow> string \<Rightarrow> 'p list option) \<Rightarrow>
     'p list \<times> string list" where
  "fetchAnthropicResearchPosts = singlePage ''Error fetching Anthropic Research:''"

text \<open>
  The single-source script has the same loop with its own constants, its page fetcher and
  its parser (of one argument), and deduplicates what the loop collected.
\<close>

definition BLOG_URL :: string where
  "BLOG_URL = ''https://cursor.com/blog''"

definition SITE_URL :: string where
  "SITE_URL = ''https://cursor.com''"

definition fetchAllPosts ::
  "(string \<Rightarrow> string option) \<Rightarrow> (string \<Rightarrow> ('a BlogPost_scheme) list option) \<Rightarrow>
     ('a BlogPost_scheme) list \<times> string list" where
  "fetchAllPosts fetchPage parseBlogPage =
     (case crawlLoop fetchPage (\<lambda>html siteUrl. parseBlogPage html) BLOG_URL SITE_URL 1 [] [] of
        (allPosts, requested) \<Rightarrow> (dedupeByLink allPosts, requested))"

section \<open>The parsed document\<close>

text \<open>
  \<^verbatim>\<open>cheerio.load(html)\<close> is the HTML parser of the library; the parsers below start from
  the document it returns, a forest of elements (tag name, attributes in source order,
  children) and text nodes. The selection methods the parsers call are the library's,
  written out for the selectors that occur. The HTML parser stores tag and attribute names
  in lower case, whatever their case in the markup.
\<close>

datatype node = Element string "(string \<times> string) list" "node list" | TextNode string

fun tagName :: "node \<Rightarrow> string" where
  "tagName (Element t as cs) = t"
| "tagName (TextNode s) = []"

fun attr :: "node \<Rightarrow> string \<Rightarrow> string option" where
  \<comment> \<open>\<^verbatim>\<open>.attr(name)\<close>: the name is looked up as it is written, case and all\<close>
  "attr (Element t as cs) name = map_of as name"
| "attr (TextNode s) name = None"

fun textOf :: "node \<Rightarrow> string" where
  \<comment> \<open>\<^verbatim>\<open>.text()\<close>: the text nodes below the element, concatenated in document order\<close>
  "textOf (TextNode s) = s"
| "textOf (Element t as cs) = concat (map textOf cs)"

fun descendants :: "node \<Rightarrow> node list" where
  "descendants (TextNode s) = []"
| "descendants (Element t as cs) = concat (map (\<lambda>c. c # descendants c) cs)"

fun walk :: "bool \<Rightarrow> node \<Rightarrow> (bool \<times> node) list" where
  \<comment> \<open>every element at or below a node, in document order, with whether it lies inside an \<^verbatim>\<open>article\<close>\<close>
  "walk inArticle (TextNode s) = []"
| "walk inArticle (Element t as cs) =
     (inArticle, Element t as cs) # concat (map (walk (inArticle \<or> t = ''article'')) cs)"

definition allElements :: "node list \<Rightarrow> (bool \<times> node) list" where
  "allElements doc = concat (map (walk False) doc)"

definition hrefIs :: "(string \<Rightarrow> bool) \<Rightarrow> node \<Rightarrow> bool" where
  "hrefIs P el = (case attr el ''href'' of None \<Rightarrow> False | Some h \<Rightarrow> P h)"

definition selectArticleBlogAnchors :: "node list \<Rightarrow> node list" where
  \<comment> \<open>\<^verbatim>\<open>$('article a[href^="/blog/"]')\<close>\<close>
  "selectArticleBlogAnchors doc =
     map snd (filter (\<lambda>(inArticle, el). inArticle \<and> tagName el = ''a'' \<and>
                        hrefIs (\<lambda>h. startsWith h ''/blog/'') el) (allElements doc))"

definition selectBlogAnchors :: "node list \<Rightarrow> node list" where
  \<comment> \<open>\<^verbatim>\<open>$('a[href^="/blog/"]')\<close>\<close>
  "selectBlogAnchors doc =
     filter (\<lambda>el. tagName el = ''a'' \<and> hrefIs (\<lambda>h. startsWith h ''/blog/'') el)
       (map snd (allElements doc))"

definition selectAnchorsContainingBlog :: "node list \<Rightarrow> node list" where
  \<comment> \<open>\<^verbatim>\<open>$('a[href*="/blog/"]')\<close>\<close>
  "selectAnchorsContainingBlog doc =
     filter (\<lambda>el. tagName el = ''a'' \<and> hrefIs (\<lambda>h. str_includes h ''/blog/'') el)
       (map snd (allElements doc))"

definition selectAnchors :: "node list \<Rightarrow> node list" where
  \<comment> \<open>\<^verbatim>\<open>$('a')\<close>\<close>
  "selectAnchors doc = filter (\<lambda>el. tagName el = ''a'') (map snd (allElements doc))"

definition findTag :: "string \<Rightarrow> node \<Rightarrow> node list" where
  \<comment> \<open>\<^verbatim>\<open>$el.find(tag)\<close>\<close>
  "findTag t el = filter (\<lambda>d. tagName d = t) (descendants el)"

fun tokens :: "string \<Rightarrow> string list" where
  \<comment> \<open>the whitespace-separated words of an attribute value\<close>
  "tokens [] = []"
| "tokens (c # cs) =
     (if isSpace c then tokens cs
      else (case tokens cs of
              [] \<Rightarrow> [[c]]
            | w # ws \<Rightarrow> (if cs \<noteq> [] \<and> \<not> isSpace (hd cs) then (c # w) # ws else [c] # w # ws)))"

definition hasClass :: "string \<Rightarrow> node \<Rightarrow> bool" where
  "hasClass c el = (case attr el ''class'' of None \<Rightarrow> False | Some v \<Rightarrow> c \<in> set (tokens v))"

definition findSpanCapitalize :: "node \<Rightarrow> node list" where
  \<comment> \<open>\<^verbatim>\<open>$el.find('span.capitalize')\<close>\<close>
  "findSpanCapitalize el =
     filter (\<lambda>d. tagName d = ''span'' \<and> hasClass ''capitalize'' d) (descendants el)"

definition first :: "node list \<Rightarrow> node list" where
  "first sel = take 1 sel"

definition eq :: "nat \<Rightarrow> node list \<Rightarrow> node list" where
  "eq i sel = take 1 (drop i sel)"

definition selText :: "node list \<Rightarrow> string" where
  \<comment> \<open>\<^verbatim>\<open>.text()\<close> of a selection; the empty selection has the empty text\<close>
  "selText sel = concat (map textOf sel)"

definition selAttr :: "node list \<Rightarrow> string \<Rightarrow> string option" where
  \<comment> \<open>\<^verbatim>\<open>.attr(name)\<close> of a selection: of its first element; \<open>None\<close> is \<^verbatim>\<open>undefined\<close>\<close>
  "selAttr sel name = (case sel of [] \<Rightarrow> None | el # rest \<Rightarrow> attr el name)"

definition orElse :: "string \<Rightarrow> string \<Rightarrow> string" where
  \<comment> \<open>\<^verbatim>\<open>a || b\<close> on strings: the empty string is falsy\<close>
  "orElse a b = (if a = [] then b else a)"

definition orElseOpt :: "string option \<Rightarrow> string \<Rightarrow> string" where
  \<comment> \<open>\<^verbatim>\<open>a || b\<close> where \<open>a\<close> may be \<^verbatim>\<open>undefined\<close>\<close>
  "orElseOpt a b = (case a of None \<Rightarrow> b | Some v \<Rightarrow> orElse v b)"

definition lowerAscii :: "char \<Rightarrow> char" where
  "lowerAscii c = (let n = of_char c :: nat in if 65 \<le> n \<and> n \<le> 90 then char_of (n + 32) else c)"

definition lowerCaseNames :: "node \<Rightarrow> bool" where
  \<comment> \<open>what holds of every element the HTML parser returns: its attribute names are in lower case\<close>
  "lowerCaseNames el =
     (case el of
        Element t as cs \<Rightarrow> list_all (\<lambda>(name, v). name = map lowerAscii name) as
      | TextNode s \<Rightarrow> True)"

section \<open>Lines of an anchor's text\<close>

definition LF :: char where
  "LF = CHR 0x0A"

definition CR :: char where
  "CR = CHR 0x0D"

definition middot :: char where
  \<comment> \<open>the separator \<^verbatim>\<open>U+00B7\<close>\<close>
  "middot = CHR 0xB7"

fun splitLF :: "string \<Rightarrow> string list" where
  \<comment> \<open>\<^verbatim>\<open>text.split('\n')\<close>\<close>
  "splitLF [] = [[]]"
| "splitLF (c # cs) =
     (if c = LF then [] # splitLF cs
      else (case splitLF cs of [] \<Rightarrow> [[c]] | l # ls \<Rightarrow> (c # l) # ls))"

definition linesOf :: "string \<Rightarrow> string list" where
  \<comment> \<open>\<^verbatim>\<open>text.split('\n').map(l => l.trim()).filter(Boolean)\<close>\<close>
  "linesOf text = filter (\<lambda>l. l \<noteq> []) (map trim (splitLF text))"

fun joinSp :: "string list \<Rightarrow> string" where
  \<comment> \<open>\<^verbatim>\<open>.join(' ')\<close>\<close>
  "joinSp [] = []"
| "joinSp [l] = l"
| "joinSp (l # ls) = l @ '' '' @ joinSp ls"

section \<open>Cursor blog parser\<close>

definition addPost :: "SourcedBlogPost list \<Rightarrow> SourcedBlogPost \<Rightarrow> SourcedBlogPost list" where
  "addPost posts post = (if title post = [] \<or> link post = [] then posts else posts @ [post])"

definition skipHref :: "string \<Rightarrow> bool" where
  \<comment> \<open>the test both passes of the Cursor parser make on an \<^verbatim>\<open>href\<close> that is defined\<close>
  "skipHref href =
     (href = [] \<or> href = ''/blog'' \<or> startsWith href ''/blog/topic'' \<or> startsWith href ''/blog/page'')"

definition stripSeparator :: "string \<Rightarrow> string" where
  \<comment> \<open>\<^verbatim>\<open>categoryText.replace(/\s*\<middot>\s*$/, '')\<close> with the separator \<^verbatim>\<open>U+00B7\<close>\<close>
  "stripSeparator s =
     (case dropWhile isSpace (rev s) of
        [] \<Rightarrow> s
      | c # r \<Rightarrow> if c = middot then rev (dropWhile isSpace r) else s)"

definition cursorCard :: "string \<Rightarrow> SourcedBlogPost list \<Rightarrow> node \<Rightarrow> SourcedBlogPost list" where
  \<comment> \<open>the callback of the first \<^verbatim>\<open>each\<close>\<close>
  "cursorCard siteUrl posts el =
     (case attr el ''href'' of
        None \<Rightarrow> posts
      | Some href \<Rightarrow>
      if skipHref href then posts
      else
        (let title' = normalizeText (selText (first (findTag ''p'' el)));
             description' = normalizeText (selText (eq 1 (findTag ''p'' el)));
             categoryText = normalizeText (selText (first (findSpanCapitalize el)));
             category' = orElse (stripSeparator categoryText) ''post'';
             timeEl = first (findTag ''time'' el);
             dateStr = orElseOpt (selAttr timeEl ''dateTime'') (normalizeText (selText timeEl))
         in addPost posts
              \<lparr>title = title', link = siteUrl @ href, description = description',
               category = category', date = dateStr, source = ''Cursor''\<rparr>))"

definition isWord :: "char \<Rightarrow> bool" where
  \<comment> \<open>the class \<^verbatim>\<open>\w\<close>\<close>
  "isWord c =
     (let n = of_char c :: nat
      in (48 \<le> n \<and> n \<le> 57) \<or> (65 \<le> n \<and> n \<le> 90) \<or> n = 95 \<or> (97 \<le> n \<and> n \<le> 122))"

definition isLineTerminator :: "char \<Rightarrow> bool" where
  \<comment> \<open>what \<^verbatim>\<open>.\<close> does not match\<close>
  "isLineTerminator c = (c = LF \<or> c = CR)"

definition metaMatch :: "string \<Rightarrow> (string \<times> string) option" where
  \<comment> \<open>\<^verbatim>\<open>metaLine.match(/^(\w+)\s*\<middot>\s*(.+)$/)\<close>: the two groups, or \<open>None\<close> for \<^verbatim>\<open>null\<close>.
      The last \<^verbatim>\<open>\s*\<close> is greedy and gives its last character back when nothing follows it.\<close>
  "metaMatch metaLine =
     (let w = takeWhile isWord metaLine; r1 = dropWhile isSpace (dropWhile isWord metaLine)
      in if w = [] then None
         else (case r1 of
                 [] \<Rightarrow> None
               | c # r2 \<Rightarrow>
                   if c \<noteq> middot then None
                   else (let r3 = dropWhile isSpace r2
                         in if r3 \<noteq> [] then
                              (if list_ex isLineTerminator r3 then None else Some (w, r3))
                            else if r2 \<noteq> [] \<and> \<not> isLineTerminator (last r2) then Some (w, [last r2])
                            else None)))"

definition cursorFallback :: "string \<Rightarrow> SourcedBlogPost list \<Rightarrow> node \<Rightarrow> SourcedBlogPost list" where
  \<comment> \<open>the callback of the second \<^verbatim>\<open>each\<close>\<close>
  "cursorFallback siteUrl posts el =
     (case attr el ''href'' of
        None \<Rightarrow> posts
      | Some href \<Rightarrow>
      if skipHref href then posts
      else
        (let lines = linesOf (textOf el) in
         if length lines < 2 then posts
         else
           (let title' = hd lines;
                description' = (if length lines > 2 then joinSp (butlast (tl lines)) else []);
                metaLine = last lines;
                m = metaMatch metaLine;
                category' = (case m of None \<Rightarrow> ''post'' | Some (g1, g2) \<Rightarrow> orElse g1 ''post'');
                dateStr = (case m of None \<Rightarrow> [] | Some (g1, g2) \<Rightarrow> orElse g2 [])
            in addPost posts
                 \<lparr>title = title', link = siteUrl @ href, description = description',
                  category = category', date = dateStr, source = ''Cursor''\<rparr>)))"

definition parseCursorBlog :: "node list \<Rightarrow> string \<Rightarrow> SourcedBlogPost list" where
  "parseCursorBlog doc siteUrl =
     (let posts = foldl (cursorCard siteUrl) [] (selectArticleBlogAnchors doc)
      in if length posts = 0 then foldl (cursorFallback siteUrl) [] (selectBlogAnchors doc)
         else posts)"

section \<open>Date lines\<close>

definition isDigit :: "char \<Rightarrow> bool" where
  \<comment> \<open>the class \<^verbatim>\<open>\d\<close>\<close>
  "isDigit c = (let n = of_char c :: nat in 48 \<le> n \<and> n \<le> 57)"

definition upperAscii :: "char \<Rightarrow> char" where
  \<comment> \<open>how the flag \<^verbatim>\<open>i\<close> compares a character with a letter of the pattern\<close>
  "upperAscii c = (let n = of_char c :: nat in if 97 \<le> n \<and> n \<le> 122 then char_of (n - 32) else c)"

definition dateTail :: "string \<Rightarrow> bool" where
  \<comment> \<open>\<^verbatim>\<open>\s+\d{1,2},?\s+\d{4}$\<close>\<close>
  "dateTail r =
     (let r1 = dropWhile isSpace r;
          d = takeWhile isDigit r1;
          r2 = dropWhile isDigit r1;
          r3 = (case r2 of [] \<Rightarrow> [] | c # cs \<Rightarrow> if c = CHR '','' then cs else r2);
          r4 = dropWhile isSpace r3
      in r1 \<noteq> r \<and> (length d = 1 \<or> length d = 2) \<and> r4 \<noteq> r3 \<and> length r4 = 4 \<and> list_all isDigit r4)"

definition matchesMonth :: "string \<Rightarrow> string \<Rightarrow> bool" where
  "matchesMonth line m =
     (length m \<le> length line \<and> map upperAscii (take (length m) line) = map upperAscii m \<and>
      dateTail (drop (length m) line))"

definition longMonths :: "string list" where
  "longMonths = [''January'', ''February'', ''March'', ''April'', ''May'', ''June'', ''July'',
     ''August'', ''September'', ''October'', ''November'', ''December'']"

definition shortMonths :: "string list" where
  "shortMonths = [''Jan'', ''Feb'', ''Mar'', ''Apr'', ''May'', ''Jun'', ''Jul'', ''Aug'', ''Sep'',
     ''Oct'', ''Nov'', ''Dec'']"

definition longDatePattern :: "string \<Rightarrow> bool" where
  "longDatePattern line = list_ex (matchesMonth line) longMonths"

definition shortDatePattern :: "string \<Rightarrow> bool" where
  "shortDatePattern line = list_ex (matchesMonth line) shortMonths"

definition isDateLine :: "string \<Rightarrow> bool" where
  "isDateLine line = (longDatePattern line \<or> shortDatePattern line)"

section \<open>Heuristic parsers\<close>

record LineScan =
  scanTitle :: string
  scanDate :: string
  scanCategory :: string

definition fullUrlOf :: "string \<Rightarrow> string \<Rightarrow> string" where
  "fullUrlOf siteUrl href = (if startsWith href ''http'' then href else siteUrl @ href)"

definition claudeCategories :: "string list" where
  "claudeCategories = [''Agents'', ''Coding'', ''Enterprise AI'', ''Product announcements'']"

definition claudeLine :: "LineScan \<Rightarrow> string \<Rightarrow> LineScan" where
  \<comment> \<open>the body of the loop over the lines, Claude blog\<close>
  "claudeLine sc line =
     (if isDateLine line then sc\<lparr>scanDate := line\<rparr>
      else if scanTitle sc = [] \<and> length line > 10 \<and> \<not> str_includes line ''Read more''
        then sc\<lparr>scanTitle := line\<rparr>
      else if line \<in> set claudeCategories then sc\<lparr>scanCategory := line\<rparr>
      else sc)"

definition claudeScan :: "string list \<Rightarrow> LineScan" where
  "claudeScan lines =
     foldl claudeLine \<lparr>scanTitle = [], scanDate = [], scanCategory = ''Blog''\<rparr> lines"

definition claudeAnchor ::
  "string \<Rightarrow> SourcedBlogPost list \<times> string set \<Rightarrow> node \<Rightarrow> SourcedBlogPost list \<times> string set" where
  "claudeAnchor siteUrl st el =
     (case st of (posts, seen) \<Rightarrow>
      (let href = orElseOpt (attr el ''href'') [] in
       if href = ''/blog'' \<or> href = ''/blog/'' \<or> \<not> str_includes href ''/blog/'' then st
       else
         (let fullUrl = fullUrlOf siteUrl href in
          if fullUrl \<in> seen then st
          else
            (let lines = linesOf (textOf el) in
             if length lines = 0 then st
             else
               (let sc = claudeScan lines in
                if scanTitle sc = [] then st
                else (posts @ [\<lparr>title = normalizeText (scanTitle sc), link = fullUrl,
                                description = [], category = scanCategory sc, date = scanDate sc,
                                source = ''Claude Blog''\<rparr>],
                      insert fullUrl seen))))))"

definition parseClaudeBlog :: "node list \<Rightarrow> string \<Rightarrow> SourcedBlogPost list" where
  "parseClaudeBlog doc siteUrl =
     fst (foldl (claudeAnchor siteUrl) ([], {}) (selectAnchorsContainingBlog doc))"

definition engineeringLine :: "LineScan \<Rightarrow> string \<Rightarrow> LineScan" where
  \<comment> \<open>the body of the loop over the lines, Anthropic engineering\<close>
  "engineeringLine sc line =
     (if isDateLine line then sc\<lparr>scanDate := line\<rparr>
      else if scanTitle sc = [] \<and> length line > 15 then sc\<lparr>scanTitle := line\<rparr>
      else sc)"

definition engineeringScan :: "string list \<Rightarrow> LineScan" where
  "engineeringScan lines =
     foldl engineeringLine \<lparr>scanTitle = [], scanDate = [], scanCategory = ''Engineering''\<rparr> lines"

definition engineeringAnchor ::
  "string \<Rightarrow> SourcedBlogPost list \<times> string set \<Rightarrow> node \<Rightarrow> SourcedBlogPost list \<times> string set" where
  "engineeringAnchor siteUrl st el =
     (case st of (posts, seen) \<Rightarrow>
      (let href = orElseOpt (attr el ''href'') [] in
       if \<not> str_includes href ''/engineering/'' \<and> \<not> str_includes href ''/news/'' then st
       else if href = ''/engineering'' \<or> href = ''/engineering/'' then st
       else
         (let fullUrl = fullUrlOf siteUrl href in
          if fullUrl \<in> seen then st
          else
            (let lines = linesOf (textOf el) in
             if length lines = 0 then st
             else
               (let sc = engineeringScan lines in
                if scanTitle sc = [] then st
                else (posts @ [\<lparr>title = normalizeText (scanTitle sc), link = fullUrl,
                                description = [], category = ''Engineering'', date = scanDate sc,
                                source = ''Anthropic Engineering''\<rparr>],
                      insert fullUrl seen))))))"

definition parseAnthropicEngineering :: "node list \<Rightarrow> string \<Rightarrow> SourcedBlogPost list" where
  "parseAnthropicEngineering doc siteUrl =
     fst (foldl (engineeringAnchor siteUrl) ([], {}) (selectAnchors doc))"

definition researchCategories :: "string list" where
  "researchCategories = [''Interpretability'', ''Alignment'', ''Societal Impacts'', ''Policy'',
     ''Economic Research'', ''Announcements'']"

definition researchLine :: "LineScan \<Rightarrow> string \<Rightarrow> LineScan" where
  \<comment> \<open>the body of the loop over the lines, Anthropic research\<close>
  "researchLine sc line =
     (if isDateLine line then sc\<lparr>scanDate := line\<rparr>
      else if line \<in> set researchCategories then sc\<lparr>scanCategory := line\<rparr>
      else if scanTitle sc = [] \<and> length line > 15 then sc\<lparr>scanTitle := line\<rparr>
      else sc)"

definition researchScan :: "string list \<Rightarrow> LineScan" where
  "researchScan lines =
     foldl researchLine \<lparr>scanTitle = [], scanDate = [], scanCategory = ''Research''\<rparr> lines"

definition researchAnchor ::
  "string \<Rightarrow> SourcedBlogPost list \<times> string set \<Rightarrow> node \<Rightarrow> SourcedBlogPost list \<times> string set" where
  "researchAnchor siteUrl st el =
     (case st of (posts, seen) \<Rightarrow>
      (let href = orElseOpt (attr el ''href'') [] in
       if \<not> str_includes href ''/research/'' \<and> \<not> str_includes href ''/news/'' then st
       else if href = ''/research'' \<or> href = ''/research/'' then st
       else
         (let fullUrl = fullUrlOf siteUrl href in
          if fullUrl \<in> seen then st
          else
            (let lines = linesOf (textOf el) in
             if length lines = 0 then st
             else
               (let sc = researchScan lines in
                if scanTitle sc = [] then st
                else (posts @ [\<lparr>title = normalizeText (scanTitle sc), link = fullUrl,
                                description = [], category = scanCategory sc, date = scanDate sc,
                                source = ''Anthropic Research''\<rparr>],
                      insert fullUrl seen))))))"

definition parseAnthropicResearch :: "node list \<Rightarrow> string \<Rightarrow> SourcedBlogPost list" where
  "parseAnthropicResearch doc siteUrl =
     fst (foldl (researchAnchor siteUrl) ([], {}) (selectAnchors doc))"

section \<open>Sample data\<close>

text \<open>Concrete posts, a date parser that knows two ISO dates, and fetch stubs, for the instances below.\<close>

definition mkPost :: "string \<Rightarrow> string \<Rightarrow> string \<Rightarrow> SourcedBlogPost" where
  "mkPost t l d =
     \<lparr>title = t, link = l, description = [], category = ''post'', date = d, source = ''Cursor''\<rparr>"

definition samplePosts :: "SourcedBlogPost list" where
  "samplePosts =
     [mkPost ''A'' ''/a'' ''2025-11-13'', mkPost ''B'' ''/b'' ''not a date'',
      mkPost ''A again'' ''/a'' ''2025-11-14'', mkPost ''C'' ''/c'' [],
      mkPost ''D'' ''/d'' ''2025-11-14'']"

definition sampleDateParse :: "string \<Rightarrow> int option" where
  "sampleDateParse s =
     (if s = ''2025-11-13'' then Some 1762992000000
      else if s = ''2025-11-14'' then Some 1763078400000
      else None)"

definition sampleNow :: int where
  "sampleNow = 1763000000000"

definition pageOne :: string where
  "pageOne = ''page one, next /blog/page/2''"

definition pageTwo :: string where
  "pageTwo = ''page two, next /blog/page/3''"

definition pageThree :: string where
  "pageThree = ''page three, next /blog/page/4''"

definition pageFour :: string where
  "pageFour = ''page four''"

definition pageOneNoNext :: string where
  "pageOneNoNext = ''page one''"

definition stubFetch :: "string \<Rightarrow> string option" where
  \<comment> \<open>four pages, each but the last naming the next\<close>
  "stubFetch url =
     (if url = ''https://cursor.com/blog'' then Some pageOne
      else if url = ''https://cursor.com/blog/page/2'' then Some pageTwo
      else if url = ''https://cursor.com/blog/page/3'' then Some pageThree
      else if url = ''https://cursor.com/blog/page/4'' then Some pageFour
      else None)"

definition stubFetchNoNext :: "string \<Rightarrow> string option" where
  \<comment> \<open>the same pages, the first without a reference to the second\<close>
  "stubFetchNoNext url =
     (if url = ''https://cursor.com/blog'' then Some pageOneNoNext else stubFetch url)"

definition stubFetchFailing :: "string \<Rightarrow> string option" where
  \<comment> \<open>the fetch of the third page throws\<close>
  "stubFetchFailing url =
     (if url = ''https://cursor.com/blog/page/3'' then None else stubFetch url)"

definition stubPosts :: "nat \<Rightarrow> SourcedBlogPost list" where
  "stubPosts i =
     (if i = 1 then [mkPost ''One'' ''/blog/one'' ''2025-11-13'', mkPost ''Uno'' ''/blog/uno'' []]
      else if i = 2 then [mkPost ''Two'' ''/blog/two'' ''2025-11-14'']
      else if i = 3 then [mkPost ''Three'' ''/blog/three'' ''not a date'']
      else [])"

definition stubHtml :: "nat \<Rightarrow> string" where
  "stubHtml i = (if i = 1 then pageOne else if i = 2 then pageTwo else if i = 3 then pageThree else pageFour)"

definition stubParse :: "string \<Rightarrow> string \<Rightarrow> SourcedBlogPost list option" where
  "stubParse html siteUrl =
     (if html = pageOne \<or> html = pageOneNoNext then Some (stubPosts 1)
      else if html = pageTwo then Some (stubPosts 2)
      else if html = pageThree then Some (stubPosts 3)
      else Some [])"

definition exampleCard :: "string \<Rightarrow> node list" where
  \<comment> \<open>the card of the scenario as the HTML parser returns it: the \<^verbatim>\<open>dateTime="2025-11-13"\<close> of
      the markup is the attribute \<^verbatim>\<open>datetime\<close>; the parameter is the visible text of the
      \<^verbatim>\<open>time\<close> element\<close>
  "exampleCard timeText =
     [Element ''article'' []
        [Element ''a'' [(''href'', ''/blog/example'')]
           [Element ''p'' [] [TextNode ''Example Title''],
            Element ''p'' [] [TextNode ''Example description''],
            Element ''span'' [(''class'', ''capitalize'')] [TextNode (''News '' @ [middot] @ '' '')],
            Element ''time'' [(''datetime'', ''2025-11-13'')] [TextNode timeText]]]]"

definition navAnchor :: "string \<Rightarrow> string \<Rightarrow> node" where
  "navAnchor href text = Element ''a'' [(''href'', href)] [TextNode text]"


section \<open>What whitespace-normalized means\<close>

fun singleSpaced :: "string \<Rightarrow> bool" where
  \<comment> \<open>every whitespace character is a space, and no two stand side by side\<close>
  "singleSpaced [] = True"
| "singleSpaced [c] = (isSpace c \<longrightarrow> c = CHR '' '')"
| "singleSpaced (c # d # cs) =
     ((isSpace c \<longrightarrow> c = CHR '' '' \<and> \<not> isSpace d) \<and> singleSpaced (d # cs))"

definition trimmed :: "string \<Rightarrow> bool" where
  "trimmed s = (s = [] \<or> (\<not> isSpace (hd s) \<and> \<not> isSpace (last s)))"

section \<open>Sample anchors for the heuristic parsers\<close>

definition claudeCard :: node where
  \<comment> \<open>a card whose text has the category label first, then the headline, then the date\<close>
  "claudeCard =
     navAnchor ''/blog/teams''
       (''Enterprise AI'' @ [LF] @ ''How teams build with Claude'' @ [LF] @ ''January 12, 2026'')"

definition researchCard :: node where
  \<comment> \<open>a card whose first long line is a call to action\<close>
  "researchCard =
     navAnchor ''/research/paper''
       (''Alignment'' @ [LF] @ ''Read more about this paper'' @ [LF] @ ''A study of model behaviour'')"

definition claudeLines :: "string list" where
  \<comment> \<open>the lines of a card with a short category label, a headline and a date\<close>
  "claudeLines = [''Agents'', ''How teams build with Claude'', ''January 12, 2026'']"

definition researchLines :: "string list" where
  "researchLines = [''A study of model behaviour'', ''Alignment'', ''Policy'', ''Jan 12, 2026'']"

definition engineeringCard :: node where
  "engineeringCard = navAnchor ''/engineering/agents'' ''Building effective agents''"

section \<open>The Deduplicator keeps first occurrences\<close>

lemma dedupeFilter_links: "link ` set (dedupeFilter seen posts) = link ` set posts - seen"
  by (induction posts arbitrary: seen) auto

lemma dedupeFilter_distinct: "distinct (map link (dedupeFilter seen posts))"
  by (induction posts arbitrary: seen) (auto simp: dedupeFilter_links)

lemma dedupeFilter_subseq: "subseq (dedupeFilter seen posts) posts"
  by (induction posts arbitrary: seen) auto

lemma dedupeFilter_find:
  "p \<in> set (dedupeFilter seen posts) \<Longrightarrow> find (\<lambda>q. link q = link p) posts = Some p"
proof (induction posts arbitrary: seen)
  case Nil
  then show ?case by simp
next
  case (Cons x xs)
  show ?case
  proof (cases "link x \<in> seen")
    case True
    with Cons.prems have mem: "p \<in> set (dedupeFilter seen xs)" by simp
    then have "link p \<in> link ` set (dedupeFilter seen xs)" by blast
    then have "link p \<notin> seen" by (simp add: dedupeFilter_links)
    with True have "link x \<noteq> link p" by auto
    with Cons.IH [OF mem] show ?thesis by simp
  next
    case False
    with Cons.prems have "p = x \<or> p \<in> set (dedupeFilter (insert (link x) seen) xs)" by simp
    then show ?thesis
    proof
      assume "p = x"
      then show ?thesis by simp
    next
      assume mem: "p \<in> set (dedupeFilter (insert (link x) seen) xs)"
      then have "link p \<in> link ` set (dedupeFilter (insert (link x) seen) xs)" by blast
      then have "link p \<noteq> link x" by (auto simp add: dedupeFilter_links)
      with Cons.IH [OF mem] show ?thesis by simp
    qed
  qed
qed

lemma dedupeFilter_index:
  "dedupeFilter seen posts =
     map (\<lambda>i. posts ! i)
       (filter (\<lambda>i. link (posts ! i) \<notin> seen \<and> (\<forall>j<i. link (posts ! j) \<noteq> link (posts ! i)))
          [0..<length posts])"
proof (induction posts arbitrary: seen)
  case Nil
  then show ?case by simp
next
  case (Cons x xs)
  have upt: "[0..<length (x # xs)] = 0 # map Suc [0..<length xs]"
    by (simp add: upt_conv_Cons map_Suc_upt del: upt_Suc)
  have all_Suc: "\<And>i P. (\<forall>j<Suc i. P j) = (P 0 \<and> (\<forall>j<i. P (Suc j)))"
    by (metis less_Suc_eq_0_disj)
  have filt: "\<And>P. filter P [0..<length (x # xs)] =
      (if P 0 then [0] else []) @ map Suc (filter (\<lambda>i. P (Suc i)) [0..<length xs])"
    unfolding upt by (simp add: filter_map comp_def)
  show ?case
  proof (cases "link x \<in> seen")
    case True
    have eq: "\<And>i. (link (xs ! i) \<notin> seen \<and> link x \<noteq> link (xs ! i) \<and> (\<forall>j<i. link (xs ! j) \<noteq> link (xs ! i)))
          = (link (xs ! i) \<notin> seen \<and> (\<forall>j<i. link (xs ! j) \<noteq> link (xs ! i)))"
      using True by auto
    show ?thesis
      unfolding filt using True by (simp add: all_Suc eq comp_def Cons.IH [of seen])
  next
    case False
    have eq: "\<And>i. (link (xs ! i) \<notin> seen \<and> link x \<noteq> link (xs ! i) \<and> (\<forall>j<i. link (xs ! j) \<noteq> link (xs ! i)))
          = (link (xs ! i) \<notin> insert (link x) seen \<and> (\<forall>j<i. link (xs ! j) \<noteq> link (xs ! i)))"
      by auto
    show ?thesis
      unfolding filt using False
      by (simp add: all_Suc eq comp_def Cons.IH [of "insert (link x) seen"] del: insert_iff)
  qed
qed

text \<open>
  Claim C2. For every list of posts, \<^const>\<open>dedupeByLink\<close> returns the subsequence of first
  occurrences per link: the links of the output are pairwise distinct, the output is a
  subsequence of the input with the same set of links, each kept post is the first input
  post that carries its link, and position by position the output is the input restricted
  to the indices that no earlier index shares a link with.
\<close>

theorem dedupeByLink_first_seen:
  "distinct (map link (dedupeByLink posts)) \<and>
   subseq (dedupeByLink posts) posts \<and>
   link ` set (dedupeByLink posts) = link ` set posts \<and>
   (\<forall>p \<in> set (dedupeByLink posts). find (\<lambda>q. link q = link p) posts = Some p) \<and>
   dedupeByLink posts =
     map (\<lambda>i. posts ! i)
       (filter (\<lambda>i. \<forall>j<i. link (posts ! j) \<noteq> link (posts ! i)) [0..<length posts])"
proof -
  have idx: "dedupeByLink posts =
     map (\<lambda>i. posts ! i)
       (filter (\<lambda>i. \<forall>j<i. link (posts ! j) \<noteq> link (posts ! i)) [0..<length posts])"
    unfolding dedupeByLink_def using dedupeFilter_index [of "{}" posts] by simp
  have "distinct (map link (dedupeByLink posts))"
    unfolding dedupeByLink_def by (rule dedupeFilter_distinct)
  moreover have "subseq (dedupeByLink posts) posts"
    unfolding dedupeByLink_def by (rule dedupeFilter_subseq)
  moreover have "link ` set (dedupeByLink posts) = link ` set posts"
    unfolding dedupeByLink_def by (simp add: dedupeFilter_links)
  moreover have "\<forall>p \<in> set (dedupeByLink posts). find (\<lambda>q. link q = link p) posts = Some p"
    unfolding dedupeByLink_def by (blast intro: dedupeFilter_find)
  ultimately show ?thesis using idx by blast
qed

section \<open>The comparator of the aggregate\<close>

text \<open>
  When the clock advances between the two readings of one comparison, two posts with
  unparseable dates compare as strictly ordered whichever of them is passed first.
\<close>

lemma compareFn_clock_tick:
  "dateParse (date a) = None \<Longrightarrow> dateParse (date b) = None \<Longrightarrow> t1 < t2 \<Longrightarrow>
     compareFn dateParse t1 t2 a b < 0 \<and> compareFn dateParse t1 t2 b a < 0"
  by (simp add: compareFn_def parseDate_def)

text \<open>
  Claim C1, which the code does not meet. The claim has two posts whose dates both fall back
  to the clock tie and keep their input order. On the posts \<open>B\<close> (date \<^verbatim>\<open>not a date\<close>) and \<open>C\<close>
  (empty date), with the clock one millisecond further at the second reading, the
  comparator answers \<open>-1\<close> for \<open>(B, C)\<close> and \<open>-1\<close> for \<open>(C, B)\<close>: each is to stand before the
  other. The comparator is not consistent, the sort owes no order to such a pair, and an
  engine whose insertion step asks for \<open>(C, B)\<close> puts \<open>C\<close> first. Only with equal readings do
  the two tie.
\<close>

theorem comparator_inconsistent_on_tick:
  "sampleDateParse (date (mkPost ''B'' ''/b'' ''not a date'')) = None \<and>
   sampleDateParse (date (mkPost ''C'' ''/c'' [])) = None \<and>
   compareFn sampleDateParse sampleNow (sampleNow + 1)
     (mkPost ''B'' ''/b'' ''not a date'') (mkPost ''C'' ''/c'' []) = - 1 \<and>
   compareFn sampleDateParse sampleNow (sampleNow + 1)
     (mkPost ''C'' ''/c'' []) (mkPost ''B'' ''/b'' ''not a date'') = - 1 \<and>
   compareFn sampleDateParse sampleNow sampleNow
     (mkPost ''B'' ''/b'' ''not a date'') (mkPost ''C'' ''/c'' []) = 0"
  by (simp add: compareFn_def parseDate_def sampleDateParse_def mkPost_def)

section \<open>The Date Resolver\<close>

text \<open>
  Claim C3. \<^const>\<open>parseDate\<close> is a total function with no failing branch. For every
  string, if the engine parses it the result is that instant, and if it does not the result
  is the clock reading of the call; so for the empty string and for \<^verbatim>\<open>not a date\<close>, which
  engines reject.
\<close>

theorem parseDate_total:
  "(\<forall>parsed. dateParse dateStr = Some parsed \<longrightarrow> parseDate dateParse now dateStr = parsed) \<and>
   (dateParse dateStr = None \<longrightarrow> parseDate dateParse now dateStr = now) \<and>
   (dateParse [] = None \<longrightarrow> parseDate dateParse now [] = now) \<and>
   (dateParse ''not a date'' = None \<longrightarrow> parseDate dateParse now ''not a date'' = now)"
  by (simp add: parseDate_def)


section \<open>Instances on the sample data\<close>

lemma dedupe_eval:
  "dedupeByLink samplePosts =
     [mkPost ''A'' ''/a'' ''2025-11-13'', mkPost ''B'' ''/b'' ''not a date'', mkPost ''C'' ''/c'' [],
      mkPost ''D'' ''/d'' ''2025-11-14'']"
  by code_simp

theorem dedupeByLink_first_seen_witness:
  "dedupeByLink samplePosts =
     [mkPost ''A'' ''/a'' ''2025-11-13'', mkPost ''B'' ''/b'' ''not a date'', mkPost ''C'' ''/c'' [],
      mkPost ''D'' ''/d'' ''2025-11-14''] \<and>
   mkPost ''A'' ''/a'' ''2025-11-13'' \<in> set (dedupeByLink samplePosts) \<and>
   find (\<lambda>q. link q = ''/a'') samplePosts = Some (mkPost ''A'' ''/a'' ''2025-11-13'') \<and>
   (0 :: nat) < 2 \<and> link (samplePosts ! 0) = link (samplePosts ! 2)"
proof -
  have mem: "mkPost ''A'' ''/a'' ''2025-11-13'' \<in> set (dedupeByLink samplePosts)"
    by (simp add: dedupe_eval)
  have lnk: "link (mkPost ''A'' ''/a'' ''2025-11-13'') = ''/a''"
    by (simp add: mkPost_def)
  have dup: "link (samplePosts ! 0) = link (samplePosts ! 2)"
    by (simp add: samplePosts_def mkPost_def)
  show ?thesis
    using dedupeByLink_first_seen [of samplePosts] mem dup
    by (auto simp add: dedupe_eval lnk)
qed

theorem parseDate_total_witness:
  "sampleDateParse ''2025-11-13'' = Some 1762992000000 \<and>
   parseDate sampleDateParse sampleNow ''2025-11-13'' = 1762992000000 \<and>
   sampleDateParse [] = None \<and> parseDate sampleDateParse sampleNow [] = sampleNow \<and>
   sampleDateParse ''not a date'' = None \<and> parseDate sampleDateParse sampleNow ''not a date'' = sampleNow"
proof -
  have a: "sampleDateParse ''2025-11-13'' = Some 1762992000000"
    and b: "sampleDateParse [] = None"
    and c: "sampleDateParse ''not a date'' = None"
    by (simp_all add: sampleDateParse_def)
  show ?thesis
    using parseDate_total [of sampleDateParse "''2025-11-13''" sampleNow] parseDate_total [of sampleDateParse "[]" sampleNow]
      a b c
    by simp
qed

section \<open>The pagination crawler\<close>

lemma crawlLoop_step:
  "page \<le> maxPages \<Longrightarrow> fetchFn (pageUrl baseUrl page) = Some html \<Longrightarrow>
   parse html siteUrl = Some posts \<Longrightarrow> posts \<noteq> [] \<Longrightarrow>
   str_includes html (''/blog/page/'' @ showNat (page + 1)) \<Longrightarrow>
   crawlLoop fetchFn parse baseUrl siteUrl page allPosts requested =
     crawlLoop fetchFn parse baseUrl siteUrl (page + 1) (allPosts @ posts)
       (requested @ [pageUrl baseUrl page])"
  by (subst crawlLoop.simps) simp

lemma crawlLoop_fetch_throws:
  "page \<le> maxPages \<Longrightarrow> fetchFn (pageUrl baseUrl page) = None \<Longrightarrow>
   crawlLoop fetchFn parse baseUrl siteUrl page allPosts requested =
     (allPosts, requested @ [pageUrl baseUrl page])"
  by (subst crawlLoop.simps) simp

lemma crawlLoop_empty_parse:
  "page \<le> maxPages \<Longrightarrow> fetchFn (pageUrl baseUrl page) = Some html \<Longrightarrow>
   parse html siteUrl = Some [] \<Longrightarrow>
   crawlLoop fetchFn parse baseUrl siteUrl page allPosts requested =
     (allPosts, requested @ [pageUrl baseUrl page])"
  by (subst crawlLoop.simps) simp

lemma crawlLoop_no_next:
  "page \<le> maxPages \<Longrightarrow> fetchFn (pageUrl baseUrl page) = Some html \<Longrightarrow>
   parse html siteUrl = Some posts \<Longrightarrow> posts \<noteq> [] \<Longrightarrow>
   \<not> str_includes html (''/blog/page/'' @ showNat (page + 1)) \<Longrightarrow>
   crawlLoop fetchFn parse baseUrl siteUrl page allPosts requested =
     (allPosts @ posts, requested @ [pageUrl baseUrl page])"
  by (subst crawlLoop.simps) simp

lemma crawlLoop_run:
  assumes "\<forall>i. page \<le> i \<and> i < page + n \<longrightarrow>
             fetchFn (pageUrl baseUrl i) = Some (h i) \<and> parse (h i) siteUrl = Some (ps i) \<and> ps i \<noteq> [] \<and>
             str_includes (h i) (''/blog/page/'' @ showNat (i + 1))"
    and "page + n \<le> Suc maxPages"
  shows "crawlLoop fetchFn parse baseUrl siteUrl page allPosts requested =
           crawlLoop fetchFn parse baseUrl siteUrl (page + n)
             (allPosts @ concat (map ps [page..<page + n]))
             (requested @ map (pageUrl baseUrl) [page..<page + n])"
  using assms
proof (induction n)
  case 0
  then show ?case by simp
next
  case (Suc n)
  have le: "page + n \<le> maxPages" using Suc.prems(2) by simp
  have here: "fetchFn (pageUrl baseUrl (page + n)) = Some (h (page + n))"
    "parse (h (page + n)) siteUrl = Some (ps (page + n))" "ps (page + n) \<noteq> []"
    "str_includes (h (page + n)) (''/blog/page/'' @ showNat (page + n + 1))"
    using Suc.prems(1) by simp_all
  have "crawlLoop fetchFn parse baseUrl siteUrl page allPosts requested =
           crawlLoop fetchFn parse baseUrl siteUrl (page + n)
             (allPosts @ concat (map ps [page..<page + n]))
             (requested @ map (pageUrl baseUrl) [page..<page + n])"
    using Suc.IH Suc.prems by simp
  also have "\<dots> = crawlLoop fetchFn parse baseUrl siteUrl (page + n + 1)
             ((allPosts @ concat (map ps [page..<page + n])) @ ps (page + n))
             ((requested @ map (pageUrl baseUrl) [page..<page + n]) @ [pageUrl baseUrl (page + n)])"
    by (rule crawlLoop_step [where page = "page + n" and fetchFn = fetchFn and baseUrl = baseUrl
          and html = "h (page + n)" and parse = parse and siteUrl = siteUrl and posts = "ps (page + n)",
          OF le here])
  finally show ?case by simp
qed

lemma crawlLoop_requested:
  "\<exists>n. n \<le> Suc maxPages - page \<and>
       snd (crawlLoop fetchFn parse baseUrl siteUrl page allPosts requested) =
         requested @ map (pageUrl baseUrl) [page..<page + n]"
proof (induction fetchFn parse baseUrl siteUrl page allPosts requested rule: crawlLoop.induct)
  case (1 fetchFn parse baseUrl siteUrl page allPosts requested)
  let ?r = "crawlLoop fetchFn parse baseUrl siteUrl page allPosts requested"
  let ?url = "pageUrl baseUrl page"
  show ?case
  proof (cases "page \<le> maxPages")
    case False
    then have "?r = (allPosts, requested)" by (subst crawlLoop.simps) simp
    then show ?thesis by (intro exI [of _ 0]) simp
  next
    case le: True
    have one: "snd ?r = requested @ [?url] \<Longrightarrow> ?thesis"
      using le by (intro exI [of _ 1]) simp
    show ?thesis
    proof (cases "fetchFn ?url")
      case None
      then show ?thesis using le one by (simp add: crawlLoop_fetch_throws)
    next
      case (Some html)
      show ?thesis
      proof (cases "parse html siteUrl")
        case None
        with Some le have "?r = (allPosts, requested @ [?url])"
          by (subst crawlLoop.simps) simp
        then show ?thesis using one by simp
      next
        case posts: (Some posts)
        show ?thesis
        proof (cases "posts = [] \<or> \<not> str_includes html (''/blog/page/'' @ showNat (page + 1))")
          case True
          then have "snd ?r = requested @ [?url]"
          proof
            assume "posts = []"
            with Some posts le show ?thesis by (simp add: crawlLoop_empty_parse)
          next
            assume nn: "\<not> str_includes html (''/blog/page/'' @ showNat (page + 1))"
            show ?thesis
            proof (cases "posts = []")
              case True
              with Some posts le show ?thesis by (simp add: crawlLoop_empty_parse)
            next
              case False
              show ?thesis
                using crawlLoop_no_next [where page = page and fetchFn = fetchFn and baseUrl = baseUrl
                  and html = html and parse = parse and siteUrl = siteUrl and posts = posts,
                  OF le Some posts False nn]
                by simp
            qed
          qed
          then show ?thesis by (rule one)
        next
          case False
          then have ne: "posts \<noteq> []" and nx: "str_includes html (''/blog/page/'' @ showNat (page + 1))"
            by simp_all
          have step: "?r = crawlLoop fetchFn parse baseUrl siteUrl (page + 1) (allPosts @ posts)
                       (requested @ [?url])"
            by (rule crawlLoop_step [where page = page and fetchFn = fetchFn and baseUrl = baseUrl
                  and html = html and parse = parse and siteUrl = siteUrl and posts = posts,
                  OF le Some posts ne nx])
          from "1.IH" [OF le refl Some posts ne] nx
          obtain n where n: "n \<le> Suc maxPages - (page + 1)"
            and r: "snd (crawlLoop fetchFn parse baseUrl siteUrl (page + 1) (allPosts @ posts)
                       (requested @ [?url])) =
                    (requested @ [?url]) @ map (pageUrl baseUrl) [page + 1..<page + 1 + n]"
            by auto
          have "[page..<page + Suc n] = page # [page + 1..<page + 1 + n]"
            by (simp add: upt_conv_Cons)
          then have "snd ?r = requested @ map (pageUrl baseUrl) [page..<page + Suc n]"
            using step r by simp
          moreover have "Suc n \<le> Suc maxPages - page" using n le by simp
          ultimately show ?thesis by blast
        qed
      qed
    qed
  qed
qed


lemma next_small:
  "''/blog/page/'' @ showNat (1 + 1) = ''/blog/page/2''"
  "''/blog/page/'' @ showNat (2 + 1) = ''/blog/page/3''"
  "''/blog/page/'' @ showNat (3 + 1) = ''/blog/page/4''"
  by code_simp+

lemma showNat_small:
  "showNat 2 = ''2''" "showNat 3 = ''3''" "showNat 4 = ''4''" "showNat 5 = ''5''"
  by code_simp+

lemma pageUrl_small:
  "pageUrl baseUrl 1 = baseUrl" "pageUrl baseUrl 2 = baseUrl @ ''/page/2''"
  "pageUrl baseUrl 3 = baseUrl @ ''/page/3''" "pageUrl baseUrl 4 = baseUrl @ ''/page/4''"
  "pageUrl baseUrl 5 = baseUrl @ ''/page/5''" "pageUrl baseUrl (Suc 0) = baseUrl"
  by (simp_all add: pageUrl_def showNat_small)

text \<open>
  Claim C5. For every injected fetch function and parser, the pagination crawler requests
  at most 100 URLs, and the URLs it requests are exactly those of the pages 1, 2, ... up to
  the number of requests, in that order: no page beyond 100 is requested and the loop, one
  request per iteration, ends within 100 iterations. The same holds for the loop of the
  single-source script.
\<close>

theorem crawl_ceiling:
  "length (snd (fetchCursorPosts fetchFn baseUrl siteUrl parse)) \<le> 100 \<and>
   snd (fetchCursorPosts fetchFn baseUrl siteUrl parse) =
     map (pageUrl baseUrl) [1..<Suc (length (snd (fetchCursorPosts fetchFn baseUrl siteUrl parse)))] \<and>
   length (snd (fetchAllPosts fetchPage parseBlogPage)) \<le> 100 \<and>
   snd (fetchAllPosts fetchPage parseBlogPage) =
     map (pageUrl BLOG_URL) [1..<Suc (length (snd (fetchAllPosts fetchPage parseBlogPage)))]"
proof -
  have top: "length (snd (crawlLoop f p b s 1 [] [])) \<le> 100 \<and>
      snd (crawlLoop f p b s 1 [] []) =
        map (pageUrl b) [1..<Suc (length (snd (crawlLoop f p b s 1 [] [])))]"
    for f :: "string \<Rightarrow> string option" and p :: "string \<Rightarrow> string \<Rightarrow> 'x list option" and b s
  proof -
    obtain n where n: "n \<le> Suc maxPages - 1"
      and r: "snd (crawlLoop f p b s 1 [] []) = [] @ map (pageUrl b) [1..<1 + n]"
      using crawlLoop_requested [of 1 f p b s "[]" "[]"] by blast
    have len: "length (snd (crawlLoop f p b s 1 [] [])) = n" using r by simp
    show ?thesis using n r len by (simp add: maxPages_def)
  qed
  have all: "snd (fetchAllPosts fetchPage parseBlogPage) =
      snd (crawlLoop fetchPage (\<lambda>html siteUrl. parseBlogPage html) BLOG_URL SITE_URL 1 [] [])"
    by (simp add: fetchAllPosts_def split: prod.splits)
  show ?thesis
    unfolding fetchCursorPosts_def all
    using top [of fetchFn parse baseUrl siteUrl]
      top [of fetchPage "\<lambda>html siteUrl. parseBlogPage html" BLOG_URL SITE_URL]
    by blast
qed

lemma stub_crawl:
  "fetchCursorPosts stubFetch ''https://cursor.com/blog'' ''https://cursor.com'' stubParse =
     (stubPosts 1 @ stubPosts 2 @ stubPosts 3,
      [''https://cursor.com/blog'', ''https://cursor.com/blog/page/2'',
       ''https://cursor.com/blog/page/3'', ''https://cursor.com/blog/page/4''])"
  by code_simp

theorem crawl_ceiling_witness:
  "length (snd (fetchCursorPosts stubFetch ''https://cursor.com/blog'' ''https://cursor.com'' stubParse)) = 4 \<and>
   (4 :: nat) \<le> 100 \<and>
   snd (fetchCursorPosts stubFetch ''https://cursor.com/blog'' ''https://cursor.com'' stubParse) =
     map (pageUrl ''https://cursor.com/blog'') [1..<Suc 4]"
proof -
  have len: "length (snd (fetchCursorPosts stubFetch ''https://cursor.com/blog'' ''https://cursor.com'' stubParse)) = 4"
    by (simp add: stub_crawl)
  from crawl_ceiling [of stubFetch "''https://cursor.com/blog''" "''https://cursor.com''" stubParse]
  have "snd (fetchCursorPosts stubFetch ''https://cursor.com/blog'' ''https://cursor.com'' stubParse) =
     map (pageUrl ''https://cursor.com/blog'')
       [1..<Suc (length (snd (fetchCursorPosts stubFetch ''https://cursor.com/blog'' ''https://cursor.com'' stubParse)))]"
    by blast
  then have "snd (fetchCursorPosts stubFetch ''https://cursor.com/blog'' ''https://cursor.com'' stubParse) =
     map (pageUrl ''https://cursor.com/blog'') [1..<Suc 4]"
    by (simp only: len)
  with len show ?thesis by simp
qed

text \<open>
  Claim C4, as amended. For every fetch stub and parser that give non-empty parse results
  for pages 1, 2 and 3 and an empty one for page 4, and where the HTML of page 1 contains
  \<^verbatim>\<open>/blog/page/2\<close> and the HTML of page 2 contains \<^verbatim>\<open>/blog/page/3\<close>, the crawler returns
  the posts of pages 1 to 3 concatenated in page order and never requests page 5; it
  requests page 4 exactly when the HTML of page 3 contains \<^verbatim>\<open>/blog/page/4\<close>.
\<close>

theorem crawl_stops_on_empty_page:
  assumes "fetchFn (pageUrl baseUrl 1) = Some h1" and "parse h1 siteUrl = Some ps1" and "ps1 \<noteq> []"
    and "fetchFn (pageUrl baseUrl 2) = Some h2" and "parse h2 siteUrl = Some ps2" and "ps2 \<noteq> []"
    and "fetchFn (pageUrl baseUrl 3) = Some h3" and "parse h3 siteUrl = Some ps3" and "ps3 \<noteq> []"
    and "fetchFn (pageUrl baseUrl 4) = Some h4" and "parse h4 siteUrl = Some []"
    and "str_includes h1 ''/blog/page/2''" and "str_includes h2 ''/blog/page/3''"
  shows "fst (fetchCursorPosts fetchFn baseUrl siteUrl parse) = ps1 @ ps2 @ ps3 \<and>
         pageUrl baseUrl 5 \<notin> set (snd (fetchCursorPosts fetchFn baseUrl siteUrl parse)) \<and>
         snd (fetchCursorPosts fetchFn baseUrl siteUrl parse) =
           map (pageUrl baseUrl) (if str_includes h3 ''/blog/page/4'' then [1, 2, 3, 4] else [1, 2, 3])"
proof -
  have m: "(1::nat) \<le> maxPages" "(2::nat) \<le> maxPages" "(3::nat) \<le> maxPages" "(4::nat) \<le> maxPages"
    by (simp_all add: maxPages_def)
  have arith: "(2::nat) + 1 = 3" "(3::nat) + 1 = 4"
    by simp_all
  have n1: "str_includes h1 (''/blog/page/'' @ showNat (1 + 1))"
    and n2: "str_includes h2 (''/blog/page/'' @ showNat (2 + 1))"
    using assms(12,13) by (simp_all only: next_small)
  have s1: "crawlLoop fetchFn parse baseUrl siteUrl 1 [] [] =
      crawlLoop fetchFn parse baseUrl siteUrl 2 ps1 [pageUrl baseUrl 1]"
    using crawlLoop_step [where page = 1 and fetchFn = fetchFn and baseUrl = baseUrl and html = h1
      and parse = parse and siteUrl = siteUrl and posts = ps1 and allPosts = "[]" and requested = "[]",
      OF m(1) assms(1,2,3) n1] by (simp only: one_add_one append_Nil)
  have s2: "crawlLoop fetchFn parse baseUrl siteUrl 2 ps1 [pageUrl baseUrl 1] =
      crawlLoop fetchFn parse baseUrl siteUrl 3 (ps1 @ ps2) [pageUrl baseUrl 1, pageUrl baseUrl 2]"
    using crawlLoop_step [where page = 2 and fetchFn = fetchFn and baseUrl = baseUrl and html = h2
      and parse = parse and siteUrl = siteUrl and posts = ps2 and allPosts = ps1
      and requested = "[pageUrl baseUrl 1]", OF m(2) assms(4,5,6) n2]
    by (simp only: arith append_Cons append_Nil)
  have neq: "pageUrl baseUrl 5 \<noteq> pageUrl baseUrl 1" "pageUrl baseUrl 5 \<noteq> pageUrl baseUrl 2"
    "pageUrl baseUrl 5 \<noteq> pageUrl baseUrl 3" "pageUrl baseUrl 5 \<noteq> pageUrl baseUrl 4"
    by (simp_all add: pageUrl_small)
  show ?thesis
  proof (cases "str_includes h3 ''/blog/page/4''")
    case True
    then have n3: "str_includes h3 (''/blog/page/'' @ showNat (3 + 1))"
      by (simp only: next_small)
    have s3: "crawlLoop fetchFn parse baseUrl siteUrl 3 (ps1 @ ps2) [pageUrl baseUrl 1, pageUrl baseUrl 2] =
        crawlLoop fetchFn parse baseUrl siteUrl 4 (ps1 @ ps2 @ ps3)
          [pageUrl baseUrl 1, pageUrl baseUrl 2, pageUrl baseUrl 3]"
      using crawlLoop_step [where page = 3 and fetchFn = fetchFn and baseUrl = baseUrl and html = h3
        and parse = parse and siteUrl = siteUrl and posts = ps3 and allPosts = "ps1 @ ps2"
        and requested = "[pageUrl baseUrl 1, pageUrl baseUrl 2]", OF m(3) assms(7,8,9) n3]
      by (simp only: arith append_Cons append_Nil append_assoc)
    have s4: "crawlLoop fetchFn parse baseUrl siteUrl 4 (ps1 @ ps2 @ ps3)
          [pageUrl baseUrl 1, pageUrl baseUrl 2, pageUrl baseUrl 3] =
        (ps1 @ ps2 @ ps3, [pageUrl baseUrl 1, pageUrl baseUrl 2, pageUrl baseUrl 3, pageUrl baseUrl 4])"
      using crawlLoop_empty_parse [where page = 4 and fetchFn = fetchFn and baseUrl = baseUrl
        and html = h4 and parse = parse and siteUrl = siteUrl, OF m(4) assms(10,11)]
      by (simp only: append_Cons append_Nil)
    show ?thesis
      unfolding fetchCursorPosts_def s1 s2 s3 s4 using True neq by simp
  next
    case False
    then have n3: "\<not> str_includes h3 (''/blog/page/'' @ showNat (3 + 1))"
      unfolding next_small .
    have s3: "crawlLoop fetchFn parse baseUrl siteUrl 3 (ps1 @ ps2) [pageUrl baseUrl 1, pageUrl baseUrl 2] =
        (ps1 @ ps2 @ ps3, [pageUrl baseUrl 1, pageUrl baseUrl 2, pageUrl baseUrl 3])"
      using crawlLoop_no_next [where page = 3 and fetchFn = fetchFn and baseUrl = baseUrl and html = h3
        and parse = parse and siteUrl = siteUrl and posts = ps3 and allPosts = "ps1 @ ps2"
        and requested = "[pageUrl baseUrl 1, pageUrl baseUrl 2]", OF m(3) assms(7,8,9) n3]
      by (simp only: append_Cons append_Nil append_assoc)
    show ?thesis
      unfolding fetchCursorPosts_def s1 s2 s3 using False neq by simp
  qed
qed

theorem crawl_stops_on_empty_page_witness:
  "fst (fetchCursorPosts stubFetch ''https://cursor.com/blog'' ''https://cursor.com'' stubParse) =
     stubPosts 1 @ stubPosts 2 @ stubPosts 3 \<and>
   pageUrl ''https://cursor.com/blog'' 5 \<notin>
     set (snd (fetchCursorPosts stubFetch ''https://cursor.com/blog'' ''https://cursor.com'' stubParse))"
proof -
  let ?b = "''https://cursor.com/blog''" and ?s = "''https://cursor.com''"
  have f: "stubFetch (pageUrl ?b 1) = Some pageOne" "stubFetch (pageUrl ?b 2) = Some pageTwo"
    "stubFetch (pageUrl ?b 3) = Some pageThree" "stubFetch (pageUrl ?b 4) = Some pageFour"
    by code_simp+
  have p: "stubParse pageOne ?s = Some (stubPosts 1)" "stubParse pageTwo ?s = Some (stubPosts 2)"
    "stubParse pageThree ?s = Some (stubPosts 3)" "stubParse pageFour ?s = Some []"
    by code_simp+
  have ne: "stubPosts 1 \<noteq> []" "stubPosts 2 \<noteq> []" "stubPosts 3 \<noteq> []"
    by code_simp+
  have nx: "str_includes pageOne ''/blog/page/2''" "str_includes pageTwo ''/blog/page/3''"
    by code_simp+
  from crawl_stops_on_empty_page [where fetchFn = stubFetch and parse = stubParse,
      OF f(1) p(1) ne(1) f(2) p(2) ne(2) f(3) p(3) ne(3) f(4) p(4) nx]
  show ?thesis by blast
qed

text \<open>
  Claim C4 as stated fails: this stub gives non-empty parse results for pages 1 to 3 and an
  empty one for page 4, but its first page does not mention \<^verbatim>\<open>/blog/page/2\<close>, and the
  crawler returns the posts of page 1 only.
\<close>

theorem crawl_stops_on_empty_page_counterexample:
  "stubFetchNoNext (pageUrl ''https://cursor.com/blog'' 1) = Some pageOneNoNext \<and>
   stubParse pageOneNoNext ''https://cursor.com'' = Some (stubPosts 1) \<and> stubPosts 1 \<noteq> [] \<and>
   stubFetchNoNext (pageUrl ''https://cursor.com/blog'' 2) = Some pageTwo \<and>
   stubParse pageTwo ''https://cursor.com'' = Some (stubPosts 2) \<and> stubPosts 2 \<noteq> [] \<and>
   stubFetchNoNext (pageUrl ''https://cursor.com/blog'' 3) = Some pageThree \<and>
   stubParse pageThree ''https://cursor.com'' = Some (stubPosts 3) \<and> stubPosts 3 \<noteq> [] \<and>
   stubFetchNoNext (pageUrl ''https://cursor.com/blog'' 4) = Some pageFour \<and>
   stubParse pageFour ''https://cursor.com'' = Some [] \<and>
   fst (fetchCursorPosts stubFetchNoNext ''https://cursor.com/blog'' ''https://cursor.com'' stubParse)
     = stubPosts 1 \<and>
   stubPosts 1 \<noteq> stubPosts 1 @ stubPosts 2 @ stubPosts 3"
  by code_simp

section \<open>Fetch failures stay inside the crawlers\<close>

text \<open>
  Claim C6. No crawler has a failing result. If the crawl proceeds through the pages before
  \<open>k\<close> and the fetch of page \<open>k\<close> throws, the pagination crawler returns exactly the posts
  parsed from the pages before \<open>k\<close>, having requested the pages up to \<open>k\<close>; whatever the
  loop has collected when a fetch throws is what it returns; and when the fetch of the
  listing throws, each of the three single-page crawlers returns the empty list (and logs).
\<close>

theorem fetch_failure_absorbed:
  "(1 \<le> k \<and> k \<le> maxPages \<and>
    (\<forall>i. 1 \<le> i \<and> i < k \<longrightarrow>
       fetchFn (pageUrl baseUrl i) = Some (h i) \<and> parse (h i) siteUrl = Some (ps i) \<and> ps i \<noteq> [] \<and>
       str_includes (h i) (''/blog/page/'' @ showNat (i + 1))) \<and>
    fetchFn (pageUrl baseUrl k) = None
    \<longrightarrow> fetchCursorPosts fetchFn baseUrl siteUrl parse =
          (concat (map ps [1..<k]), map (pageUrl baseUrl) [1..<Suc k])) \<and>
   (page \<le> maxPages \<and> fetchFn (pageUrl baseUrl page) = None
    \<longrightarrow> crawlLoop fetchFn parse baseUrl siteUrl page allPosts requested =
          (allPosts, requested @ [pageUrl baseUrl page])) \<and>
   (fetchFn baseUrl = None
    \<longrightarrow> fetchClaudePosts fetchFn baseUrl siteUrl parse = ([], [''Error fetching Claude blog:'']) \<and>
        fetchAnthropicEngineeringPosts fetchFn baseUrl siteUrl parse =
          ([], [''Error fetching Anthropic Engineering blog:'']) \<and>
        fetchAnthropicResearchPosts fetchFn baseUrl siteUrl parse =
          ([], [''Error fetching Anthropic Research:'']))"
proof (intro conjI impI)
  assume a: "1 \<le> k \<and> k \<le> maxPages \<and>
    (\<forall>i. 1 \<le> i \<and> i < k \<longrightarrow>
       fetchFn (pageUrl baseUrl i) = Some (h i) \<and> parse (h i) siteUrl = Some (ps i) \<and> ps i \<noteq> [] \<and>
       str_includes (h i) (''/blog/page/'' @ showNat (i + 1))) \<and>
    fetchFn (pageUrl baseUrl k) = None"
  then obtain n where k: "k = 1 + n" by (metis le_Suc_ex)
  have run: "crawlLoop fetchFn parse baseUrl siteUrl 1 [] [] =
      crawlLoop fetchFn parse baseUrl siteUrl (1 + n) ([] @ concat (map ps [1..<1 + n]))
        ([] @ map (pageUrl baseUrl) [1..<1 + n])"
    by (rule crawlLoop_run) (use a k in auto)
  have "crawlLoop fetchFn parse baseUrl siteUrl k (concat (map ps [1..<k])) (map (pageUrl baseUrl) [1..<k]) =
      (concat (map ps [1..<k]), map (pageUrl baseUrl) [1..<k] @ [pageUrl baseUrl k])"
    by (rule crawlLoop_fetch_throws) (use a in auto)
  with run k show "fetchCursorPosts fetchFn baseUrl siteUrl parse =
          (concat (map ps [1..<k]), map (pageUrl baseUrl) [1..<Suc k])"
    by (simp add: fetchCursorPosts_def)
next
  assume "page \<le> maxPages \<and> fetchFn (pageUrl baseUrl page) = None"
  then show "crawlLoop fetchFn parse baseUrl siteUrl page allPosts requested =
          (allPosts, requested @ [pageUrl baseUrl page])"
    by (simp add: crawlLoop_fetch_throws)
qed (simp_all add: fetchClaudePosts_def fetchAnthropicEngineeringPosts_def
       fetchAnthropicResearchPosts_def singlePage_def)

theorem fetch_failure_absorbed_witness:
  "(1 :: nat) \<le> 3 \<and> 3 \<le> maxPages \<and>
   stubFetchFailing (pageUrl ''https://cursor.com/blog'' 3) = None \<and>
   fetchCursorPosts stubFetchFailing ''https://cursor.com/blog'' ''https://cursor.com'' stubParse =
     (stubPosts 1 @ stubPosts 2,
      [''https://cursor.com/blog'', ''https://cursor.com/blog/page/2'', ''https://cursor.com/blog/page/3'']) \<and>
   crawlLoop stubFetchFailing stubParse ''https://cursor.com/blog'' ''https://cursor.com'' 3
       (stubPosts 1) [] = (stubPosts 1, [] @ [pageUrl ''https://cursor.com/blog'' 3]) \<and>
   stubFetchFailing ''https://cursor.com/blog/page/3'' = None \<and>
   fetchClaudePosts stubFetchFailing ''https://cursor.com/blog/page/3'' ''https://cursor.com'' stubParse =
     ([], [''Error fetching Claude blog:'']) \<and>
   fetchAnthropicEngineeringPosts stubFetchFailing ''https://cursor.com/blog/page/3'' ''https://cursor.com''
       stubParse = ([], [''Error fetching Anthropic Engineering blog:'']) \<and>
   fetchAnthropicResearchPosts stubFetchFailing ''https://cursor.com/blog/page/3'' ''https://cursor.com''
       stubParse = ([], [''Error fetching Anthropic Research:''])"
proof -
  let ?b = "''https://cursor.com/blog''" and ?s = "''https://cursor.com''"
  have none: "stubFetchFailing ''https://cursor.com/blog/page/3'' = None"
    and none3: "stubFetchFailing (pageUrl ?b 3) = None"
    by code_simp+
  have c1: "stubFetchFailing (pageUrl ?b 1) = Some (stubHtml 1) \<and>
       stubParse (stubHtml 1) ?s = Some (stubPosts 1) \<and> stubPosts 1 \<noteq> [] \<and>
       str_includes (stubHtml 1) (''/blog/page/'' @ showNat (1 + 1))"
    by code_simp
  have c2: "stubFetchFailing (pageUrl ?b 2) = Some (stubHtml 2) \<and>
       stubParse (stubHtml 2) ?s = Some (stubPosts 2) \<and> stubPosts 2 \<noteq> [] \<and>
       str_includes (stubHtml 2) (''/blog/page/'' @ showNat (2 + 1))"
    by code_simp
  have pages: "\<forall>i. 1 \<le> i \<and> i < 3 \<longrightarrow>
       stubFetchFailing (pageUrl ?b i) = Some (stubHtml i) \<and>
       stubParse (stubHtml i) ?s = Some (stubPosts i) \<and> stubPosts i \<noteq> [] \<and>
       str_includes (stubHtml i) (''/blog/page/'' @ showNat (i + 1))"
  proof (intro allI impI)
    fix i :: nat
    assume "1 \<le> i \<and> i < 3"
    then have "i = 1 \<or> i = 2" by auto
    then show "stubFetchFailing (pageUrl ?b i) = Some (stubHtml i) \<and>
       stubParse (stubHtml i) ?s = Some (stubPosts i) \<and> stubPosts i \<noteq> [] \<and>
       str_includes (stubHtml i) (''/blog/page/'' @ showNat (i + 1))"
      using c1 c2 by blast
  qed
  have m: "(1 :: nat) \<le> 3" "3 \<le> maxPages" by (simp_all add: maxPages_def)
  have ev: "concat (map stubPosts [1..<3]) = stubPosts 1 @ stubPosts 2"
    "map (pageUrl ?b) [1..<Suc 3] =
       [''https://cursor.com/blog'', ''https://cursor.com/blog/page/2'', ''https://cursor.com/blog/page/3'']"
    by code_simp+
  from fetch_failure_absorbed [where k = 3 and fetchFn = stubFetchFailing and baseUrl = ?b
        and h = stubHtml and ps = stubPosts and siteUrl = ?s and parse = stubParse]
  have "1 \<le> (3::nat) \<and> 3 \<le> maxPages \<and>
    (\<forall>i. 1 \<le> i \<and> i < 3 \<longrightarrow>
       stubFetchFailing (pageUrl ?b i) = Some (stubHtml i) \<and>
       stubParse (stubHtml i) ?s = Some (stubPosts i) \<and> stubPosts i \<noteq> [] \<and>
       str_includes (stubHtml i) (''/blog/page/'' @ showNat (i + 1))) \<and>
    stubFetchFailing (pageUrl ?b 3) = None
    \<longrightarrow> fetchCursorPosts stubFetchFailing ?b ?s stubParse =
          (concat (map stubPosts [1..<3]), map (pageUrl ?b) [1..<Suc 3])"
    by (rule conjunct1)
  with m pages none3
  have r1: "fetchCursorPosts stubFetchFailing ?b ?s stubParse =
          (concat (map stubPosts [1..<3]), map (pageUrl ?b) [1..<Suc 3])"
    by blast
  from fetch_failure_absorbed [where fetchFn = stubFetchFailing
        and baseUrl = "''https://cursor.com/blog/page/3''" and siteUrl = ?s and parse = stubParse]
    none
  have r2: "fetchClaudePosts stubFetchFailing ''https://cursor.com/blog/page/3'' ?s stubParse =
     ([], [''Error fetching Claude blog:'']) \<and>
   fetchAnthropicEngineeringPosts stubFetchFailing ''https://cursor.com/blog/page/3'' ?s stubParse =
     ([], [''Error fetching Anthropic Engineering blog:'']) \<and>
   fetchAnthropicResearchPosts stubFetchFailing ''https://cursor.com/blog/page/3'' ?s stubParse =
     ([], [''Error fetching Anthropic Research:''])"
    by blast
  from fetch_failure_absorbed [where fetchFn = stubFetchFailing and baseUrl = ?b and page = 3
        and parse = stubParse and siteUrl = ?s and allPosts = "stubPosts 1" and requested = "[]"]
    m(2) none3
  have r3: "crawlLoop stubFetchFailing stubParse ?b ?s 3 (stubPosts 1) [] =
      (stubPosts 1, [] @ [pageUrl ?b 3])"
    by blast
  show ?thesis
    using m none none3 r1 r2 r3 unfolding ev by blast
qed

section \<open>Whitespace normalization\<close>

lemma last_dropWhile: "dropWhile P xs \<noteq> [] \<Longrightarrow> last (dropWhile P xs) = last xs"
  by (induction xs) (auto split: if_splits)

lemma trimmed_trim: "trimmed (trim s)"
proof -
  let ?a = "dropWhile isSpace s"
  let ?b = "dropWhile isSpace (rev ?a)"
  show ?thesis
  proof (cases "?b = []")
    case True
    then have "trim s = []" unfolding trim_def by (simp only: rev.simps)
    then show ?thesis by (simp add: trimmed_def)
  next
    case False
    have a: "?a \<noteq> []"
    proof
      assume "?a = []"
      then have "?b = []" by (simp only: rev.simps dropWhile.simps)
      with False show False by contradiction
    qed
    have "\<not> isSpace (hd ?b)" using False by (rule hd_dropWhile)
    moreover have "last ?b = last (rev ?a)" using False by (rule last_dropWhile)
    then have "last ?b = hd ?a" using a by (simp add: last_rev)
    moreover have "\<not> isSpace (hd ?a)" using a by (rule hd_dropWhile)
    ultimately show ?thesis using False
      by (simp add: trimmed_def trim_def hd_rev last_rev)
  qed
qed

lemma trim_id: "trimmed s \<Longrightarrow> trim s = s"
proof (cases "s = []")
  case True
  then show ?thesis by (simp add: trim_def)
next
  case False
  assume "trimmed s"
  with False have h: "\<not> isSpace (hd s)" and l: "\<not> isSpace (last s)" by (simp_all add: trimmed_def)
  have "dropWhile isSpace s = s" using h False by (cases s) simp_all
  moreover have "dropWhile isSpace (rev s) = rev s" using l False by (cases "rev s") (simp_all add: hd_rev [symmetric])
  ultimately show ?thesis by (simp add: trim_def)
qed

lemma trim_trim: "trim (trim s) = trim s"
  by (rule trim_id) (rule trimmed_trim)

lemma trim_infix: "\<exists>p q. s = p @ trim s @ q"
proof -
  let ?a = "dropWhile isSpace s"
  have "s = takeWhile isSpace s @ ?a" by simp
  moreover have "rev ?a = takeWhile isSpace (rev ?a) @ dropWhile isSpace (rev ?a)" by simp
  then have "?a = rev (dropWhile isSpace (rev ?a)) @ rev (takeWhile isSpace (rev ?a))"
    by (metis rev_append rev_rev_ident)
  ultimately have "s = takeWhile isSpace s @ trim s @ rev (takeWhile isSpace (rev ?a))"
    by (simp add: trim_def)
  then show ?thesis by blast
qed

lemma set_trim: "set (trim s) \<subseteq> set s"
  using trim_infix [of s] by (metis Un_upper1 Un_upper2 set_append subset_trans)

lemma singleSpaced_Cons:
  "singleSpaced ys \<Longrightarrow> (isSpace c \<longrightarrow> c = CHR '' '' \<and> (ys = [] \<or> \<not> isSpace (hd ys))) \<Longrightarrow>
     singleSpaced (c # ys)"
  by (cases ys) auto

lemma singleSpaced_tl: "singleSpaced (c # cs) \<Longrightarrow> singleSpaced cs"
  by (cases cs) auto

lemma singleSpaced_append: "singleSpaced (xs @ ys) \<Longrightarrow> singleSpaced xs \<and> singleSpaced ys"
proof (induction xs rule: singleSpaced.induct)
  case 1
  then show ?case by simp
next
  case (2 c)
  then show ?case by (cases ys) auto
next
  case (3 c d cs)
  then show ?case by auto
qed

lemma collapse_singleSpaced: "singleSpaced (collapse s)"
proof (induction s rule: collapse.induct)
  case 1
  then show ?case by simp
next
  case (2 c cs)
  show ?case
  proof (cases "isSpace c")
    case True
    have "collapse (dropWhile isSpace cs) = [] \<or> \<not> isSpace (hd (collapse (dropWhile isSpace cs)))"
    proof (cases "dropWhile isSpace cs")
      case Nil
      then have "collapse (dropWhile isSpace cs) = []" by (simp only: collapse.simps)
      then show ?thesis by simp
    next
      case (Cons d ds)
      then have "\<not> isSpace d" by (metis hd_dropWhile list.sel(1) list.distinct(1))
      with Cons show ?thesis by simp
    qed
    with True 2 show ?thesis by (simp add: singleSpaced_Cons)
  next
    case False
    with 2 show ?thesis by (simp add: singleSpaced_Cons)
  qed
qed

lemma collapse_id: "singleSpaced s \<Longrightarrow> collapse s = s"
proof (induction s rule: collapse.induct)
  case 1
  then show ?case by simp
next
  case (2 c cs)
  have tl: "singleSpaced cs" using "2.prems" by (rule singleSpaced_tl)
  show ?case
  proof (cases "isSpace c")
    case True
    with "2.prems" have c: "c = CHR '' ''" and d: "cs = [] \<or> \<not> isSpace (hd cs)"
      by (cases cs; simp)+
    from d have "dropWhile isSpace cs = cs" by (cases cs) auto
    with True c tl "2.IH"(1) show ?thesis by simp
  next
    case False
    with tl "2.IH"(2) show ?thesis by simp
  qed
qed

lemma normalizeText_singleSpaced: "singleSpaced (normalizeText s)"
proof -
  obtain p q where "collapse s = p @ trim (collapse s) @ q" using trim_infix by blast
  then have "singleSpaced (p @ trim (collapse s) @ q)" using collapse_singleSpaced [of s] by simp
  then show ?thesis unfolding normalizeText_def using singleSpaced_append by blast
qed

lemma normalizeText_idem: "normalizeText (normalizeText s) = normalizeText s"
proof -
  have "collapse (normalizeText s) = normalizeText s"
    by (rule collapse_id) (rule normalizeText_singleSpaced)
  then show ?thesis by (simp add: normalizeText_def trim_trim)
qed





lemma splitLF_no_LF: "l \<in> set (splitLF s) \<Longrightarrow> LF \<notin> set l"
  by (induction s arbitrary: l) (auto split: if_splits list.splits)

lemma linesOf_line: "l \<in> set (linesOf text) \<Longrightarrow> l \<noteq> [] \<and> trim l = l \<and> LF \<notin> set l"
  using set_trim splitLF_no_LF by (auto simp add: linesOf_def trim_trim)

section \<open>Every parsed post has a title and a link\<close>

lemma foldl_invariant:
  "P s \<Longrightarrow> (\<And>s x. x \<in> set xs \<Longrightarrow> P s \<Longrightarrow> P (f s x)) \<Longrightarrow> P (foldl f s xs)"
  by (induction xs arbitrary: s) auto

lemma cursorCard_valid:
  assumes "\<forall>p \<in> set posts. title p \<noteq> [] \<and> link p \<noteq> [] \<and> normalizeText (title p) = title p \<and>
             (\<exists>h. link p = siteUrl @ h \<and> \<not> skipHref h)"
  shows "\<forall>p \<in> set (cursorCard siteUrl posts el). title p \<noteq> [] \<and> link p \<noteq> [] \<and>
           normalizeText (title p) = title p \<and> (\<exists>h. link p = siteUrl @ h \<and> \<not> skipHref h)"
  using assms
  by (auto simp add: cursorCard_def Let_def addPost_def normalizeText_idem split: option.splits)

lemma hd_linesOf:
  "2 \<le> length (linesOf text) \<Longrightarrow>
     hd (linesOf text) \<noteq> [] \<and> trim (hd (linesOf text)) = hd (linesOf text) \<and> LF \<notin> set (hd (linesOf text))"
proof -
  assume "2 \<le> length (linesOf text)"
  then have "linesOf text \<noteq> []" by auto
  then have "hd (linesOf text) \<in> set (linesOf text)" by simp
  then show ?thesis by (rule linesOf_line)
qed

lemma cursorFallback_valid:
  assumes "\<forall>p \<in> set posts. title p \<noteq> [] \<and> link p \<noteq> [] \<and> trim (title p) = title p \<and>
             LF \<notin> set (title p) \<and> (\<exists>h. link p = siteUrl @ h \<and> \<not> skipHref h)"
  shows "\<forall>p \<in> set (cursorFallback siteUrl posts el). title p \<noteq> [] \<and> link p \<noteq> [] \<and>
           trim (title p) = title p \<and> LF \<notin> set (title p) \<and> (\<exists>h. link p = siteUrl @ h \<and> \<not> skipHref h)"
proof (cases "attr el ''href''")
  case None
  then show ?thesis using assms by (simp add: cursorFallback_def)
next
  case (Some href)
  show ?thesis
  proof (cases "skipHref href \<or> length (linesOf (textOf el)) < 2")
    case True
    then show ?thesis using assms Some by (auto simp add: cursorFallback_def Let_def)
  next
    case False
    then have two: "2 \<le> length (linesOf (textOf el))" and ns: "\<not> skipHref href" by auto
    note hd = hd_linesOf [OF two]
    show ?thesis
      using assms Some False hd ns
      by (auto simp add: cursorFallback_def Let_def addPost_def)
  qed
qed

lemma cursor_primary_valid:
  "\<forall>p \<in> set (foldl (cursorCard siteUrl) [] els). title p \<noteq> [] \<and> link p \<noteq> [] \<and>
     normalizeText (title p) = title p \<and> (\<exists>h. link p = siteUrl @ h \<and> \<not> skipHref h)"
  by (rule foldl_invariant) (simp, rule cursorCard_valid)

lemma cursor_fallback_valid:
  "\<forall>p \<in> set (foldl (cursorFallback siteUrl) [] els). title p \<noteq> [] \<and> link p \<noteq> [] \<and>
     trim (title p) = title p \<and> LF \<notin> set (title p) \<and> (\<exists>h. link p = siteUrl @ h \<and> \<not> skipHref h)"
  by (rule foldl_invariant) (simp, rule cursorFallback_valid)









lemma normalized_explicit: "normalizeText t = t \<Longrightarrow> singleSpaced t \<and> trimmed t"
proof -
  assume fp: "normalizeText t = t"
  have "singleSpaced (normalizeText t)" by (rule normalizeText_singleSpaced)
  moreover have "trimmed (normalizeText t)" unfolding normalizeText_def by (rule trimmed_trim)
  ultimately show ?thesis unfolding fp by simp
qed

lemma normalized_iff: "normalizeText t = t \<longleftrightarrow> singleSpaced t \<and> trimmed t"
proof
  assume "normalizeText t = t"
  then show "singleSpaced t \<and> trimmed t" by (rule normalized_explicit)
next
  assume "singleSpaced t \<and> trimmed t"
  then show "normalizeText t = t" by (simp add: normalizeText_def collapse_id trim_id)
qed









lemma card_eval:
  "parseCursorBlog (exampleCard ''Nov 13, 2025'') ''https://cursor.com'' =
     [\<lparr>title = ''Example Title'', link = ''https://cursor.com/blog/example'',
       description = ''Example description'', category = ''News'', date = ''Nov 13, 2025'',
       source = ''Cursor''\<rparr>]"
  "foldl (cursorCard ''https://cursor.com'') [] (selectArticleBlogAnchors (exampleCard ''Nov 13, 2025'')) =
     [\<lparr>title = ''Example Title'', link = ''https://cursor.com/blog/example'',
       description = ''Example description'', category = ''News'', date = ''Nov 13, 2025'',
       source = ''Cursor''\<rparr>]"
  "parseClaudeBlog [claudeCard] ''https://claude.com'' =
     [\<lparr>title = ''Enterprise AI'', link = ''https://claude.com/blog/teams'', description = [],
       category = ''Blog'', date = ''January 12, 2026'', source = ''Claude Blog''\<rparr>]"
  "parseAnthropicResearch [researchCard] ''https://www.anthropic.com'' =
     [\<lparr>title = ''Read more about this paper'', link = ''https://www.anthropic.com/research/paper'',
       description = [], category = ''Alignment'', date = [], source = ''Anthropic Research''\<rparr>]"
  "parseAnthropicEngineering [engineeringCard] ''https://www.anthropic.com'' =
     [\<lparr>title = ''Building effective agents'', link = ''https://www.anthropic.com/engineering/agents'',
       description = [], category = ''Engineering'', date = [], source = ''Anthropic Engineering''\<rparr>]"
  by code_simp+


section \<open>The card scenario\<close>

lemma card_anchor:
  "selectArticleBlogAnchors (exampleCard timeText) = [hd (descendants (hd (exampleCard timeText)))]"
  "attr (hd (descendants (hd (exampleCard timeText)))) ''href'' = Some ''/blog/example''"
  "skipHref ''/blog/example'' = False"
  "normalizeText (selText (first (findTag ''p'' (hd (descendants (hd (exampleCard timeText))))))) =
     ''Example Title''"
  "normalizeText (selText (eq 1 (findTag ''p'' (hd (descendants (hd (exampleCard timeText))))))) =
     ''Example description''"
  "orElse (stripSeparator (normalizeText (selText (first (findSpanCapitalize
      (hd (descendants (hd (exampleCard timeText)))))))))  ''post'' = ''News''"
  "selAttr [Element ''time'' [(''datetime'', ''2025-11-13'')] [TextNode timeText]] ''dateTime'' = None"
  "first (findTag ''time'' (hd (descendants (hd (exampleCard timeText))))) =
     [Element ''time'' [(''datetime'', ''2025-11-13'')] [TextNode timeText]]"
  by code_simp+

lemma card_time_text:
  "normalizeText ''Nov 13, 2025'' = ''Nov 13, 2025''" "normalizeText [] = []"
  "map lowerAscii ''dateTime'' = ''datetime''"
  by code_simp+

text \<open>
  The lookup of \<^verbatim>\<open>dateTime\<close> finds nothing on any element whose attribute names are in lower
  case, so on such a tree the date of a card is always the normalized visible text of its
  \<^verbatim>\<open>time\<close> element.
\<close>

lemma dateTime_lookup_undefined: "lowerCaseNames el \<Longrightarrow> attr el ''dateTime'' = None"
proof (cases el)
  case (Element t as cs)
  assume "lowerCaseNames el"
  with Element have low: "\<forall>(name, v) \<in> set as. name = map lowerAscii name"
    by (simp add: lowerCaseNames_def list_all_iff)
  have "''dateTime'' \<notin> fst ` set as"
  proof
    assume "''dateTime'' \<in> fst ` set as"
    then obtain v where "(''dateTime'', v) \<in> set as" by auto
    with low have "''dateTime'' = map lowerAscii ''dateTime''" by blast
    then show False unfolding card_time_text by simp
  qed
  then show ?thesis using Element by (simp add: map_of_eq_None_iff)
next
  case (TextNode s)
  then show ?thesis by simp
qed

lemma card_date_is_time_text:
  assumes "\<forall>d \<in> set (descendants el). lowerCaseNames d"
  shows "orElseOpt (selAttr (first (findTag ''time'' el)) ''dateTime'') fallback = fallback"
proof (cases "findTag ''time'' el")
  case Nil
  then show ?thesis by (simp add: first_def selAttr_def orElseOpt_def)
next
  case (Cons d ds)
  then have "d \<in> set (findTag ''time'' el)" by simp
  then have "d \<in> set (descendants el)" by (simp add: findTag_def)
  with assms have "attr d ''dateTime'' = None" by (simp add: dateTime_lookup_undefined)
  with Cons show ?thesis by (simp add: first_def selAttr_def orElseOpt_def)
qed

text \<open>
  Claim C7, which the code does not meet. The scenario's markup gives its time element the
  attribute \<^verbatim>\<open>dateTime="2025-11-13"\<close>, which the parsed tree holds as \<^verbatim>\<open>datetime\<close>; the parser
  asks for \<^verbatim>\<open>dateTime\<close>, finds nothing and takes the visible text. So on the scenario's card
  the one post returned has the title, link, description and category of the claim, but
  its date is the normalized visible text of the time element, whatever that is:
  \<^verbatim>\<open>Nov 13, 2025\<close> when the element shows that, and the empty string when it shows nothing;
  not the \<^verbatim>\<open>2025-11-13\<close> of the attribute.
\<close>

theorem card_scenario_date:
  "parseCursorBlog (exampleCard timeText) siteUrl =
     [\<lparr>title = ''Example Title'', link = siteUrl @ ''/blog/example'',
       description = ''Example description'', category = ''News'', date = normalizeText timeText,
       source = ''Cursor''\<rparr>] \<and>
   parseCursorBlog (exampleCard ''Nov 13, 2025'') siteUrl =
     [\<lparr>title = ''Example Title'', link = siteUrl @ ''/blog/example'',
       description = ''Example description'', category = ''News'', date = ''Nov 13, 2025'',
       source = ''Cursor''\<rparr>] \<and>
   parseCursorBlog (exampleCard []) siteUrl =
     [\<lparr>title = ''Example Title'', link = siteUrl @ ''/blog/example'',
       description = ''Example description'', category = ''News'', date = [],
       source = ''Cursor''\<rparr>]"
proof -
  have card: "cursorCard siteUrl [] (hd (descendants (hd (exampleCard t)))) =
     [\<lparr>title = ''Example Title'', link = siteUrl @ ''/blog/example'',
       description = ''Example description'', category = ''News'', date = normalizeText t,
       source = ''Cursor''\<rparr>]" for t
    unfolding cursorCard_def Let_def card_anchor
    by (simp add: addPost_def orElseOpt_def orElse_def card_anchor selText_def)
  have all: "parseCursorBlog (exampleCard t) siteUrl =
     [\<lparr>title = ''Example Title'', link = siteUrl @ ''/blog/example'',
       description = ''Example description'', category = ''News'', date = normalizeText t,
       source = ''Cursor''\<rparr>]" for t
    unfolding parseCursorBlog_def Let_def card_anchor using card [of t] by simp
  show ?thesis
    using all [of timeText] all [of "''Nov 13, 2025''"] all [of "[]"]
    unfolding card_time_text by blast
qed

section \<open>Navigation links\<close>

lemma nav_href_facts:
  "skipHref ''/blog/page/2''" "skipHref ''/blog/topic/ai''"
  "\<not> str_includes ''/blog/page/2'' ''/engineering/''" "\<not> str_includes ''/blog/page/2'' ''/news/''"
  "\<not> str_includes ''/blog/page/2'' ''/research/''"
  "\<not> str_includes ''/blog/topic/ai'' ''/engineering/''" "\<not> str_includes ''/blog/topic/ai'' ''/news/''"
  "\<not> str_includes ''/blog/topic/ai'' ''/research/''"
  "str_includes ''/blog/page/2'' ''/blog/''" "str_includes ''/blog/topic/ai'' ''/blog/''"
  "\<not> startsWith ''/blog/page/2'' ''http''" "\<not> startsWith ''/blog/topic/ai'' ''http''"
  by code_simp+

text \<open>
  Claim C8, as amended. An anchor whose \<^verbatim>\<open>href\<close> is \<^verbatim>\<open>/blog/page/2\<close> or \<^verbatim>\<open>/blog/topic/ai\<close>
  produces no post in either pass of the Cursor parser, nor in the Anthropic engineering
  and research parsers: each leaves its state as it was; and no post of the Cursor parser
  has such a link. The Claude blog parser excludes only the bare listing paths: an anchor
  to \<^verbatim>\<open>/blog\<close> or \<^verbatim>\<open>/blog/\<close> leaves its state as it was, while an anchor to
  \<^verbatim>\<open>/blog/page/2\<close> or \<^verbatim>\<open>/blog/topic/ai\<close> is read like any post link: unless its URL was
  seen before or its text has no title line, it adds a post with that URL.
\<close>

theorem navigation_excluded:
  assumes "attr el ''href'' = Some href" and "href = ''/blog/page/2'' \<or> href = ''/blog/topic/ai''"
  shows "cursorCard siteUrl posts el = posts \<and> cursorFallback siteUrl posts el = posts \<and>
         engineeringAnchor siteUrl st el = st \<and> researchAnchor siteUrl st el = st \<and>
         (\<forall>p \<in> set (parseCursorBlog doc siteUrl). link p \<noteq> siteUrl @ href) \<and>
         (attr bare ''href'' = Some ''/blog'' \<or> attr bare ''href'' = Some ''/blog/''
            \<longrightarrow> claudeAnchor siteUrl st bare = st) \<and>
         claudeAnchor siteUrl (found, seen) el =
           (if siteUrl @ href \<in> seen \<or> scanTitle (claudeScan (linesOf (textOf el))) = []
            then (found, seen)
            else (found @ [\<lparr>title = normalizeText (scanTitle (claudeScan (linesOf (textOf el)))),
                             link = siteUrl @ href, description = [],
                             category = scanCategory (claudeScan (linesOf (textOf el))),
                             date = scanDate (claudeScan (linesOf (textOf el))),
                             source = ''Claude Blog''\<rparr>],
                  insert (siteUrl @ href) seen))"
proof -
  have skip: "skipHref href" using assms(2) nav_href_facts by auto
  have ne: "href \<noteq> []" using assms(2) by auto
  have inc: "\<not> str_includes href ''/engineering/''" "\<not> str_includes href ''/news/''"
    "\<not> str_includes href ''/research/''"
    using assms(2) nav_href_facts by auto
  have card: "cursorCard siteUrl posts el = posts"
    using assms(1) skip by (simp add: cursorCard_def)
  have fall: "cursorFallback siteUrl posts el = posts"
    using assms(1) skip by (simp add: cursorFallback_def)
  have eng: "engineeringAnchor siteUrl st el = st"
    using assms(1) inc ne by (simp add: engineeringAnchor_def orElseOpt_def orElse_def split: prod.splits)
  have res: "researchAnchor siteUrl st el = st"
    using assms(1) inc ne by (simp add: researchAnchor_def orElseOpt_def orElse_def split: prod.splits)
  have "\<forall>p \<in> set (parseCursorBlog doc siteUrl). \<exists>h. link p = siteUrl @ h \<and> \<not> skipHref h"
    using cursor_primary_valid [of siteUrl "selectArticleBlogAnchors doc"]
      cursor_fallback_valid [of siteUrl "selectBlogAnchors doc"]
    by (auto simp add: parseCursorBlog_def Let_def)
  then have links: "\<forall>p \<in> set (parseCursorBlog doc siteUrl). link p \<noteq> siteUrl @ href"
    using skip by auto
  have bare: "attr bare ''href'' = Some ''/blog'' \<or> attr bare ''href'' = Some ''/blog/''
            \<longrightarrow> claudeAnchor siteUrl st bare = st"
    by (auto simp add: claudeAnchor_def orElseOpt_def orElse_def split: prod.splits)
  have h: "orElseOpt (attr el ''href'') [] = href"
    using assms(1) ne by (simp add: orElseOpt_def orElse_def)
  have nb: "href \<noteq> ''/blog''" "href \<noteq> ''/blog/''" using assms(2) by auto
  have ib: "str_includes href ''/blog/''" using assms(2) nav_href_facts by auto
  have full: "fullUrlOf siteUrl href = siteUrl @ href"
    using assms(2) nav_href_facts by (auto simp add: fullUrlOf_def)
  have none: "linesOf (textOf el) = [] \<Longrightarrow> scanTitle (claudeScan (linesOf (textOf el))) = []"
    by (simp add: claudeScan_def)
  have claude: "claudeAnchor siteUrl (found, seen) el =
           (if siteUrl @ href \<in> seen \<or> scanTitle (claudeScan (linesOf (textOf el))) = []
            then (found, seen)
            else (found @ [\<lparr>title = normalizeText (scanTitle (claudeScan (linesOf (textOf el)))),
                             link = siteUrl @ href, description = [],
                             category = scanCategory (claudeScan (linesOf (textOf el))),
                             date = scanDate (claudeScan (linesOf (textOf el))),
                             source = ''Claude Blog''\<rparr>],
                  insert (siteUrl @ href) seen))"
    unfolding claudeAnchor_def Let_def h full
    using nb ib none by auto
  from card fall eng res links bare claude show ?thesis by blast
qed

lemma nav_eval:
  "attr (navAnchor ''/blog/page/2'' ''Older posts are here'') ''href'' = Some ''/blog/page/2''"
  "fst (claudeAnchor ''https://claude.com'' ([], {}) (navAnchor ''/blog/page/2'' ''Older posts are here'')) =
     [\<lparr>title = ''Older posts are here'', link = ''https://claude.com/blog/page/2'', description = [],
       category = ''Blog'', date = [], source = ''Claude Blog''\<rparr>]"
  "parseClaudeBlog [navAnchor ''/blog/page/2'' ''Older posts are here''] ''https://claude.com'' =
     [\<lparr>title = ''Older posts are here'', link = ''https://claude.com/blog/page/2'', description = [],
       category = ''Blog'', date = [], source = ''Claude Blog''\<rparr>]"
  "attr (navAnchor ''/blog'' ''The blog of the Claude team'') ''href'' = Some ''/blog''"
  "claudeScan (linesOf (textOf (navAnchor ''/blog/page/2'' ''Older posts are here''))) =
     \<lparr>scanTitle = ''Older posts are here'', scanDate = [], scanCategory = ''Blog''\<rparr>"
  "normalizeText ''Older posts are here'' = ''Older posts are here''"
  by code_simp+

text \<open>
  Claim C8 as stated fails for the Claude blog parser: an anchor to \<^verbatim>\<open>/blog/page/2\<close> with a
  text of more than ten characters produces a post.
\<close>

theorem navigation_excluded_counterexample:
  "attr (navAnchor ''/blog/page/2'' ''Older posts are here'') ''href'' = Some ''/blog/page/2'' \<and>
   fst (claudeAnchor ''https://claude.com'' ([], {}) (navAnchor ''/blog/page/2'' ''Older posts are here'')) =
     [\<lparr>title = ''Older posts are here'', link = ''https://claude.com/blog/page/2'', description = [],
       category = ''Blog'', date = [], source = ''Claude Blog''\<rparr>] \<and>
   parseClaudeBlog [navAnchor ''/blog/page/2'' ''Older posts are here''] ''https://claude.com'' =
     [\<lparr>title = ''Older posts are here'', link = ''https://claude.com/blog/page/2'', description = [],
       category = ''Blog'', date = [], source = ''Claude Blog''\<rparr>]"
  by (simp add: nav_eval)

theorem navigation_excluded_witness:
  "attr (navAnchor ''/blog/page/2'' ''Older posts are here'') ''href'' = Some ''/blog/page/2'' \<and>
   cursorCard ''https://cursor.com'' [] (navAnchor ''/blog/page/2'' ''Older posts are here'') = [] \<and>
   cursorFallback ''https://cursor.com'' [] (navAnchor ''/blog/page/2'' ''Older posts are here'') = [] \<and>
   engineeringAnchor ''https://www.anthropic.com'' ([], {})
     (navAnchor ''/blog/page/2'' ''Older posts are here'') = ([], {}) \<and>
   researchAnchor ''https://www.anthropic.com'' ([], {})
     (navAnchor ''/blog/page/2'' ''Older posts are here'') = ([], {}) \<and>
   \<lparr>title = ''Example Title'', link = ''https://cursor.com/blog/example'',
     description = ''Example description'', category = ''News'', date = ''Nov 13, 2025'',
     source = ''Cursor''\<rparr>
     \<in> set (parseCursorBlog (exampleCard ''Nov 13, 2025'') ''https://cursor.com'') \<and>
   ''https://cursor.com/blog/example'' \<noteq> ''https://cursor.com'' @ ''/blog/page/2'' \<and>
   attr (navAnchor ''/blog'' ''The blog of the Claude team'') ''href'' = Some ''/blog'' \<and>
   claudeAnchor ''https://claude.com'' ([], {}) (navAnchor ''/blog'' ''The blog of the Claude team'')
     = ([], {}) \<and>
   claudeAnchor ''https://claude.com'' ([], {}) (navAnchor ''/blog/page/2'' ''Older posts are here'') =
     ([\<lparr>title = ''Older posts are here'', link = ''https://claude.com'' @ ''/blog/page/2'',
        description = [], category = ''Blog'', date = [], source = ''Claude Blog''\<rparr>],
      {''https://claude.com'' @ ''/blog/page/2''})"
proof -
  let ?p1 = "\<lparr>title = ''Example Title'', link = ''https://cursor.com/blog/example'',
     description = ''Example description'', category = ''News'', date = ''Nov 13, 2025'',
     source = ''Cursor''\<rparr>"
  let ?nav = "navAnchor ''/blog/page/2'' ''Older posts are here''"
  let ?bare = "navAnchor ''/blog'' ''The blog of the Claude team''"
  have m: "?p1 \<in> set (parseCursorBlog (exampleCard ''Nov 13, 2025'') ''https://cursor.com'')"
    by (simp add: card_eval)
  have l: "link ?p1 = ''https://cursor.com/blog/example''" by simp
  have h: "''/blog/page/2'' = ''/blog/page/2'' \<or> ''/blog/page/2'' = ''/blog/topic/ai''"
    by simp
  have "link ?p1 \<noteq> ''https://cursor.com'' @ ''/blog/page/2''"
    using navigation_excluded [OF nav_eval(1) h, of "''https://cursor.com''" "[]" "([], {})"
        "exampleCard ''Nov 13, 2025''"] m
    by blast
  then have n: "''https://cursor.com/blog/example'' \<noteq> ''https://cursor.com'' @ ''/blog/page/2''"
    unfolding l .
  have b: "claudeAnchor ''https://claude.com'' ([], {}) ?bare = ([], {})"
    using navigation_excluded [OF nav_eval(1) h, of "''https://claude.com''" "[]" "([], {})" "[]" ?bare]
      nav_eval(4)
    by blast
  from navigation_excluded [OF nav_eval(1) h, of "''https://claude.com''" "[]" "([], {})" "[]" ?bare "[]" "{}"]
  have "claudeAnchor ''https://claude.com'' ([], {}) ?nav =
           (if ''https://claude.com'' @ ''/blog/page/2'' \<in> {} \<or>
               scanTitle (claudeScan (linesOf (textOf ?nav))) = []
            then ([], {})
            else ([] @ [\<lparr>title = normalizeText (scanTitle (claudeScan (linesOf (textOf ?nav)))),
                             link = ''https://claude.com'' @ ''/blog/page/2'', description = [],
                             category = scanCategory (claudeScan (linesOf (textOf ?nav))),
                             date = scanDate (claudeScan (linesOf (textOf ?nav))),
                             source = ''Claude Blog''\<rparr>],
                  insert (''https://claude.com'' @ ''/blog/page/2'') {}))"
    by blast
  then have c: "claudeAnchor ''https://claude.com'' ([], {}) ?nav =
     ([\<lparr>title = ''Older posts are here'', link = ''https://claude.com'' @ ''/blog/page/2'',
        description = [], category = ''Blog'', date = [], source = ''Claude Blog''\<rparr>],
      {''https://claude.com'' @ ''/blog/page/2''})"
    unfolding nav_eval(5) by (simp add: nav_eval(6))
  show ?thesis
    using navigation_excluded [OF nav_eval(1) h, of "''https://cursor.com''" "[]" "([], {})" "[]"]
      navigation_excluded [OF nav_eval(1) h, of "''https://www.anthropic.com''" "[]" "([], {})" "[]"]
      m n b c nav_eval(1) nav_eval(4)
    by blast
qed

section \<open>Classification of the lines of an anchor\<close>

text \<open>A date line ends in a digit, so no category label is a date line.\<close>

lemma dateTail_last_digit:
  assumes "dateTail r"
  shows "r \<noteq> [] \<and> isDigit (last r)"
proof -
  define r1 where "r1 = dropWhile isSpace r"
  define r2 where "r2 = dropWhile isDigit r1"
  define r3 where "r3 = (case r2 of [] \<Rightarrow> [] | c # cs \<Rightarrow> if c = CHR '','' then cs else r2)"
  define r4 where "r4 = dropWhile isSpace r3"
  from assms have len: "length r4 = 4" and dig: "list_all isDigit r4"
    unfolding dateTail_def Let_def r1_def r2_def r3_def r4_def by blast+
  from len have ne4: "r4 \<noteq> []" by auto
  then have "isDigit (last r4)" using dig by (simp add: list_all_iff)
  moreover have l43: "last r4 = last r3" and ne3: "r3 \<noteq> []"
    using ne4 unfolding r4_def by (auto simp add: last_dropWhile)
  moreover have l32: "last r3 = last r2" and ne2: "r2 \<noteq> []"
    using ne3 unfolding r3_def by (auto split: list.splits if_splits)
  moreover have l21: "last r2 = last r1" and ne1: "r1 \<noteq> []"
    using ne2 unfolding r2_def by (auto simp add: last_dropWhile)
  moreover have "last r1 = last r" and "r \<noteq> []"
    using ne1 unfolding r1_def by (auto simp add: last_dropWhile)
  ultimately show ?thesis by simp
qed

lemma matchesMonth_last_digit: "matchesMonth line m \<Longrightarrow> line \<noteq> [] \<and> isDigit (last line)"
proof -
  assume "matchesMonth line m"
  then have "dateTail (drop (length m) line)" by (simp add: matchesMonth_def)
  then have "drop (length m) line \<noteq> [] \<and> isDigit (last (drop (length m) line))"
    by (rule dateTail_last_digit)
  then show ?thesis by (auto simp add: last_drop)
qed

lemma isDateLine_last_digit: "isDateLine line \<Longrightarrow> line \<noteq> [] \<and> isDigit (last line)"
  unfolding isDateLine_def longDatePattern_def shortDatePattern_def list_ex_iff
  using matchesMonth_last_digit by blast

lemma research_category_not_date: "l \<in> set researchCategories \<Longrightarrow> \<not> isDateLine l"
proof
  assume "l \<in> set researchCategories" and "isDateLine l"
  then have "l \<in> set researchCategories" and "isDigit (last l)"
    by (simp_all add: isDateLine_last_digit)
  then show False by (auto simp add: researchCategories_def isDigit_def)
qed

lemma claude_category_not_date: "l \<in> set claudeCategories \<Longrightarrow> \<not> isDateLine l"
proof
  assume "l \<in> set claudeCategories" and "isDateLine l"
  then have "l \<in> set claudeCategories" and "isDigit (last l)"
    by (simp_all add: isDateLine_last_digit)
  then show False by (auto simp add: claudeCategories_def isDigit_def)
qed

lemma researchLine_fields:
  "scanTitle (researchLine sc l) =
     (if scanTitle sc \<noteq> [] then scanTitle sc
      else if \<not> isDateLine l \<and> l \<notin> set researchCategories \<and> length l > 15 then l else [])"
  "scanCategory (researchLine sc l) = (if l \<in> set researchCategories then l else scanCategory sc)"
  using research_category_not_date [of l] by (auto simp add: researchLine_def)

lemma research_title:
  "scanTitle (foldl researchLine sc ls) =
     (if scanTitle sc \<noteq> [] then scanTitle sc
      else (case find (\<lambda>l. \<not> isDateLine l \<and> l \<notin> set researchCategories \<and> length l > 15) ls of
              None \<Rightarrow> [] | Some t \<Rightarrow> t))"
proof (induction ls arbitrary: sc)
  case Nil
  then show ?case by simp
next
  case (Cons l ls)
  have "15 < length l \<Longrightarrow> l \<noteq> []" by auto
  then show ?case
    unfolding foldl_Cons Cons.IH researchLine_fields by auto
qed

lemma research_category:
  "scanCategory (foldl researchLine sc ls) =
     (if filter (\<lambda>l. l \<in> set researchCategories) ls = [] then scanCategory sc
      else last (filter (\<lambda>l. l \<in> set researchCategories) ls))"
proof (induction ls arbitrary: sc)
  case Nil
  then show ?case by simp
next
  case (Cons l ls)
  show ?case
    unfolding foldl_Cons Cons.IH researchLine_fields by simp
qed

lemma claudeLine_titled:
  "scanTitle sc \<noteq> [] \<Longrightarrow> scanTitle (claudeLine sc l) = scanTitle sc"
  "scanTitle sc \<noteq> [] \<Longrightarrow>
     scanCategory (claudeLine sc l) = (if l \<in> set claudeCategories then l else scanCategory sc)"
  using claude_category_not_date [of l] by (auto simp add: claudeLine_def)

lemma claude_after_title:
  "scanTitle sc \<noteq> [] \<Longrightarrow>
     scanTitle (foldl claudeLine sc ls) = scanTitle sc \<and>
     scanCategory (foldl claudeLine sc ls) =
       (if filter (\<lambda>l. l \<in> set claudeCategories) ls = [] then scanCategory sc
        else last (filter (\<lambda>l. l \<in> set claudeCategories) ls))"
proof (induction ls arbitrary: sc)
  case Nil
  then show ?case by simp
next
  case (Cons l ls)
  note f = claudeLine_titled [OF Cons.prems, of l]
  have t: "scanTitle (claudeLine sc l) \<noteq> []"
    using Cons.prems f(1) by simp
  show ?case
    unfolding foldl_Cons using Cons.IH [OF t] f by simp
qed

lemma claudeLine_untitled:
  assumes "scanTitle sc = []"
  shows "\<not> isDateLine l \<and> length l > 10 \<and> \<not> str_includes l ''Read more'' \<Longrightarrow>
           claudeLine sc l = sc\<lparr>scanTitle := l\<rparr>"
    and "\<not> (\<not> isDateLine l \<and> length l > 10 \<and> \<not> str_includes l ''Read more'') \<Longrightarrow>
           scanTitle (claudeLine sc l) = [] \<and>
           scanCategory (claudeLine sc l) = (if l \<in> set claudeCategories then l else scanCategory sc)"
  using assms claude_category_not_date [of l] by (auto simp add: claudeLine_def)

lemma claude_before_title:
  assumes "scanTitle sc = []"
    and "\<forall>t. find (\<lambda>l. \<not> isDateLine l \<and> length l > 10 \<and> \<not> str_includes l ''Read more'') ls = Some t
           \<longrightarrow> t \<notin> set claudeCategories"
  shows "scanTitle (foldl claudeLine sc ls) =
           (case find (\<lambda>l. \<not> isDateLine l \<and> l \<notin> set claudeCategories \<and> length l > 10 \<and>
                            \<not> str_includes l ''Read more'') ls of
              None \<Rightarrow> [] | Some t \<Rightarrow> t) \<and>
         scanCategory (foldl claudeLine sc ls) =
           (if filter (\<lambda>l. l \<in> set claudeCategories) ls = [] then scanCategory sc
            else last (filter (\<lambda>l. l \<in> set claudeCategories) ls))"
  using assms
proof (induction ls arbitrary: sc)
  case Nil
  then show ?case by simp
next
  case (Cons l ls)
  show ?case
  proof (cases "\<not> isDateLine l \<and> length l > 10 \<and> \<not> str_includes l ''Read more''")
    case True
    with Cons.prems(2) have nc: "l \<notin> set claudeCategories" by simp
    have step: "claudeLine sc l = sc\<lparr>scanTitle := l\<rparr>"
      using claudeLine_untitled(1) [OF Cons.prems(1) True] .
    have ne: "scanTitle (sc\<lparr>scanTitle := l\<rparr>) \<noteq> []" using True by auto
    show ?thesis
      unfolding foldl_Cons step
      using claude_after_title [OF ne, of ls] True nc by simp
  next
    case False
    note f = claudeLine_untitled(2) [OF Cons.prems(1) False]
    have t: "scanTitle (claudeLine sc l) = []" using f by simp
    have h: "\<forall>t. find (\<lambda>l. \<not> isDateLine l \<and> length l > 10 \<and> \<not> str_includes l ''Read more'') ls = Some t
           \<longrightarrow> t \<notin> set claudeCategories"
      using Cons.prems(2) False by simp
    show ?thesis
      unfolding foldl_Cons
      using Cons.IH [OF t h] False f by auto
  qed
qed

text \<open>
  Claim C9, as amended. In the Anthropic research parser, for every list of lines: the
  title is the first line that is neither a date nor a category label and is longer than 15
  (that parser has no call-to-action test), so a line equal to a category label never
  becomes the title; and the category is the last line equal to a category label, or the
  default. In the Claude blog parser the same holds, with the threshold 10 and lines
  containing \<^verbatim>\<open>Read more\<close> passed over, for every list of lines whose first line passing
  the title test is not itself a category label. In both parsers the post an anchor
  produces carries the normalized title and the category of this scan.
\<close>

theorem line_classification:
  "scanTitle (researchScan lines) =
     (case find (\<lambda>l. \<not> isDateLine l \<and> l \<notin> set researchCategories \<and> length l > 15) lines of
        None \<Rightarrow> [] | Some t \<Rightarrow> t) \<and>
   scanTitle (researchScan lines) \<notin> set researchCategories \<and>
   scanCategory (researchScan lines) =
     (if filter (\<lambda>l. l \<in> set researchCategories) lines = [] then ''Research''
      else last (filter (\<lambda>l. l \<in> set researchCategories) lines)) \<and>
   ((\<forall>t. find (\<lambda>l. \<not> isDateLine l \<and> length l > 10 \<and> \<not> str_includes l ''Read more'') lines = Some t
          \<longrightarrow> t \<notin> set claudeCategories) \<longrightarrow>
    scanTitle (claudeScan lines) =
      (case find (\<lambda>l. \<not> isDateLine l \<and> l \<notin> set claudeCategories \<and> length l > 10 \<and>
                       \<not> str_includes l ''Read more'') lines of
         None \<Rightarrow> [] | Some t \<Rightarrow> t) \<and>
    scanTitle (claudeScan lines) \<notin> set claudeCategories \<and>
    scanCategory (claudeScan lines) =
      (if filter (\<lambda>l. l \<in> set claudeCategories) lines = [] then ''Blog''
       else last (filter (\<lambda>l. l \<in> set claudeCategories) lines))) \<and>
   (fst (researchAnchor siteUrl (posts, seen) el) = posts \<or>
    fst (researchAnchor siteUrl (posts, seen) el) =
      posts @ [\<lparr>title = normalizeText (scanTitle (researchScan (linesOf (textOf el)))),
                 link = fullUrlOf siteUrl (orElseOpt (attr el ''href'') []), description = [],
                 category = scanCategory (researchScan (linesOf (textOf el))),
                 date = scanDate (researchScan (linesOf (textOf el))),
                 source = ''Anthropic Research''\<rparr>]) \<and>
   (fst (claudeAnchor siteUrl (posts, seen) el) = posts \<or>
    fst (claudeAnchor siteUrl (posts, seen) el) =
      posts @ [\<lparr>title = normalizeText (scanTitle (claudeScan (linesOf (textOf el)))),
                 link = fullUrlOf siteUrl (orElseOpt (attr el ''href'') []), description = [],
                 category = scanCategory (claudeScan (linesOf (textOf el))),
                 date = scanDate (claudeScan (linesOf (textOf el))),
                 source = ''Claude Blog''\<rparr>])"
proof -
  have empty: "[] \<notin> set researchCategories" "[] \<notin> set claudeCategories"
    by (simp_all add: researchCategories_def claudeCategories_def)
  have rt: "scanTitle (researchScan lines) =
     (case find (\<lambda>l. \<not> isDateLine l \<and> l \<notin> set researchCategories \<and> length l > 15) lines of
        None \<Rightarrow> [] | Some t \<Rightarrow> t)"
    by (simp add: researchScan_def research_title)
  have rn: "scanTitle (researchScan lines) \<notin> set researchCategories"
    unfolding rt using empty(1) by (auto split: option.splits dest: find_Some_iff [THEN iffD1])
  have rc: "scanCategory (researchScan lines) =
     (if filter (\<lambda>l. l \<in> set researchCategories) lines = [] then ''Research''
      else last (filter (\<lambda>l. l \<in> set researchCategories) lines))"
    by (simp add: researchScan_def research_category)
  have cl: "scanTitle (claudeScan lines) =
      (case find (\<lambda>l. \<not> isDateLine l \<and> l \<notin> set claudeCategories \<and> length l > 10 \<and>
                       \<not> str_includes l ''Read more'') lines of
         None \<Rightarrow> [] | Some t \<Rightarrow> t) \<and>
    scanTitle (claudeScan lines) \<notin> set claudeCategories \<and>
    scanCategory (claudeScan lines) =
      (if filter (\<lambda>l. l \<in> set claudeCategories) lines = [] then ''Blog''
       else last (filter (\<lambda>l. l \<in> set claudeCategories) lines))"
    if h: "\<forall>t. find (\<lambda>l. \<not> isDateLine l \<and> length l > 10 \<and> \<not> str_includes l ''Read more'') lines = Some t
          \<longrightarrow> t \<notin> set claudeCategories"
  proof -
    have b: "scanTitle (claudeScan lines) =
      (case find (\<lambda>l. \<not> isDateLine l \<and> l \<notin> set claudeCategories \<and> length l > 10 \<and>
                       \<not> str_includes l ''Read more'') lines of
         None \<Rightarrow> [] | Some t \<Rightarrow> t)"
      and c: "scanCategory (claudeScan lines) =
      (if filter (\<lambda>l. l \<in> set claudeCategories) lines = [] then ''Blog''
       else last (filter (\<lambda>l. l \<in> set claudeCategories) lines))"
      using claude_before_title [of "\<lparr>scanTitle = [], scanDate = [], scanCategory = ''Blog''\<rparr>" lines] h
      by (simp_all add: claudeScan_def)
    have "scanTitle (claudeScan lines) \<notin> set claudeCategories"
      unfolding b using empty(2) by (auto split: option.splits dest: find_Some_iff [THEN iffD1])
    with b c show ?thesis by blast
  qed
  have ra: "fst (researchAnchor siteUrl (posts, seen) el) = posts \<or>
    fst (researchAnchor siteUrl (posts, seen) el) =
      posts @ [\<lparr>title = normalizeText (scanTitle (researchScan (linesOf (textOf el)))),
                 link = fullUrlOf siteUrl (orElseOpt (attr el ''href'') []), description = [],
                 category = scanCategory (researchScan (linesOf (textOf el))),
                 date = scanDate (researchScan (linesOf (textOf el))),
                 source = ''Anthropic Research''\<rparr>]"
    by (simp add: researchAnchor_def Let_def)
  have ca: "fst (claudeAnchor siteUrl (posts, seen) el) = posts \<or>
    fst (claudeAnchor siteUrl (posts, seen) el) =
      posts @ [\<lparr>title = normalizeText (scanTitle (claudeScan (linesOf (textOf el)))),
                 link = fullUrlOf siteUrl (orElseOpt (attr el ''href'') []), description = [],
                 category = scanCategory (claudeScan (linesOf (textOf el))),
                 date = scanDate (claudeScan (linesOf (textOf el))),
                 source = ''Claude Blog''\<rparr>]"
    by (simp add: claudeAnchor_def Let_def)
  from rt rn rc cl ra ca show ?thesis by blast
qed

lemma card_lines:
  "linesOf (textOf claudeCard) = [''Enterprise AI'', ''How teams build with Claude'', ''January 12, 2026'']"
  "linesOf (textOf researchCard) =
     [''Alignment'', ''Read more about this paper'', ''A study of model behaviour'']"
  by code_simp+

text \<open>
  Claim C9 as stated fails twice. In the Claude blog parser the label \<^verbatim>\<open>Enterprise AI\<close>,
  standing before the headline, becomes the title and the category stays the default. In
  the Anthropic research parser a line starting with \<^verbatim>\<open>Read more\<close> becomes the title.
\<close>

theorem line_classification_counterexample:
  "linesOf (textOf claudeCard) = [''Enterprise AI'', ''How teams build with Claude'', ''January 12, 2026''] \<and>
   ''Enterprise AI'' \<in> set claudeCategories \<and>
   parseClaudeBlog [claudeCard] ''https://claude.com'' =
     [\<lparr>title = ''Enterprise AI'', link = ''https://claude.com/blog/teams'', description = [],
       category = ''Blog'', date = ''January 12, 2026'', source = ''Claude Blog''\<rparr>] \<and>
   linesOf (textOf researchCard) =
     [''Alignment'', ''Read more about this paper'', ''A study of model behaviour''] \<and>
   parseAnthropicResearch [researchCard] ''https://www.anthropic.com'' =
     [\<lparr>title = ''Read more about this paper'', link = ''https://www.anthropic.com/research/paper'',
       description = [], category = ''Alignment'', date = [], source = ''Anthropic Research''\<rparr>]"
  by (simp add: card_lines card_eval claudeCategories_def)

lemma sample_lines:
  "find (\<lambda>l. \<not> isDateLine l \<and> length l > 10 \<and> \<not> str_includes l ''Read more'') claudeLines =
     Some ''How teams build with Claude''"
  "find (\<lambda>l. \<not> isDateLine l \<and> l \<notin> set claudeCategories \<and> length l > 10 \<and>
              \<not> str_includes l ''Read more'') claudeLines = Some ''How teams build with Claude''"
  "filter (\<lambda>l. l \<in> set claudeCategories) claudeLines = [''Agents'']"
  "find (\<lambda>l. \<not> isDateLine l \<and> l \<notin> set researchCategories \<and> length l > 15) researchLines =
     Some ''A study of model behaviour''"
  "filter (\<lambda>l. l \<in> set researchCategories) researchLines = [''Alignment'', ''Policy'']"
  by code_simp+

theorem line_classification_witness:
  "''How teams build with Claude'' \<notin> set claudeCategories \<and>
   scanTitle (claudeScan claudeLines) = ''How teams build with Claude'' \<and>
   scanCategory (claudeScan claudeLines) = ''Agents'' \<and>
   scanTitle (researchScan researchLines) = ''A study of model behaviour'' \<and>
   scanCategory (researchScan researchLines) = ''Policy''"
proof -
  have nc: "''How teams build with Claude'' \<notin> set claudeCategories"
    by (simp add: claudeCategories_def)
  have h: "\<forall>t. find (\<lambda>l. \<not> isDateLine l \<and> length l > 10 \<and> \<not> str_includes l ''Read more'') claudeLines
             = Some t \<longrightarrow> t \<notin> set claudeCategories"
    unfolding sample_lines(1) using nc by simp
  from line_classification [of claudeLines] h
  have "scanTitle (claudeScan claudeLines) =
      (case find (\<lambda>l. \<not> isDateLine l \<and> l \<notin> set claudeCategories \<and> length l > 10 \<and>
                       \<not> str_includes l ''Read more'') claudeLines of
         None \<Rightarrow> [] | Some t \<Rightarrow> t) \<and>
    scanCategory (claudeScan claudeLines) =
      (if filter (\<lambda>l. l \<in> set claudeCategories) claudeLines = [] then ''Blog''
       else last (filter (\<lambda>l. l \<in> set claudeCategories) claudeLines))"
    by blast
  then have c: "scanTitle (claudeScan claudeLines) = ''How teams build with Claude'' \<and>
      scanCategory (claudeScan claudeLines) = ''Agents''"
    unfolding sample_lines by simp
  from line_classification [of researchLines]
  have "scanTitle (researchScan researchLines) =
     (case find (\<lambda>l. \<not> isDateLine l \<and> l \<notin> set researchCategories \<and> length l > 15) researchLines of
        None \<Rightarrow> [] | Some t \<Rightarrow> t) \<and>
    scanCategory (researchScan researchLines) =
     (if filter (\<lambda>l. l \<in> set researchCategories) researchLines = [] then ''Research''
      else last (filter (\<lambda>l. l \<in> set researchCategories) researchLines))"
    by blast
  then have r: "scanTitle (researchScan researchLines) = ''A study of model behaviour'' \<and>
      scanCategory (researchScan researchLines) = ''Policy''"
    unfolding sample_lines by simp
  from nc c r show ?thesis by blast
qed

end
